theory Spec2Isabelle
  imports Main "HOL-Library.Multiset"
begin

section \<open>Data model of \<open>src/index.ts\<close>\<close>

text \<open>
  Numbers.  Every number the class computes with is a pixel offset read from the DOM
  (\<open>offsetTop\<close>, \<open>offsetWidth\<close>, \<open>pageX\<close>, \<open>offsetY\<close>, ...) or an order index.  The
  offsets of an element are integers, and the coordinates of a mouse event are taken to
  be; they are modelled as \<open>int\<close>, on which the additions, subtractions and
  comparisons of the source are exact (JavaScript numbers are, on integers of this
  size).

  Order values.  \<open>style.order\<close> and the \<open>drag-index\<close> attribute are strings in the DOM.
  The class only ever writes the decimal string of an integer into them
  (\<open>i + ''\<close>, \<open>index + ''\<close>, \<open>this.dragIndex + ''\<close>), and reads them back with
  \<open>parseInt(s || '-1')\<close>.  They are modelled as \<open>int option\<close>: \<open>None\<close> is the empty
  string (resp. the missing attribute), \<open>Some n\<close> the decimal string of \<open>n\<close>.  A key of
  the \<open>childrenInfos\<close> object is such a string, so the table is a map on \<open>int option\<close>;
  the lookup \<open>childrenInfos[n]\<close> with a number \<open>n\<close> reads the key \<open>Some n\<close>.
\<close>

datatype direction = DNone | DRight | DLeft | DTop | DBottom
  \<comment> \<open>\<open>DNone\<close> stands for both \<open>undefined\<close> and \<open>''\<close>, the two falsy values\<close>

record DraggableOptions =
  dragId :: "string option"
  isChildren :: bool
  isAllowOut :: bool
  isAllowIn :: bool
  isSort :: bool
  resizeId :: "string option"
  direction :: direction

text \<open>\<open>el\<close> is a reference to a child element: its position in \<open>this.el.children\<close>.\<close>

record PositionItem =
  top' :: int
  left :: int
  width :: int
  height :: int
  el :: "nat option"

record Info =
  currentTop :: int
  currentLeft :: int
  currentWidth :: int
  currentHeight :: int
  offsetTop :: int
  offsetLeft :: int
  parentTop :: int
  parentLeft :: int
  parentWidth :: int
  parentHeight :: int

text \<open>What the browser reports for an element: \<open>offsetTop\<close>, \<open>offsetLeft\<close>,
  \<open>offsetWidth\<close>, \<open>offsetHeight\<close>.\<close>

record DomBox =
  boxTop :: int
  boxLeft :: int
  boxWidth :: int
  boxHeight :: int

text \<open>The layout is computed by the browser, not by the class: every handler takes what
  the browser would report at that moment as an argument.\<close>

record Layout =
  el_box :: DomBox  \<comment> \<open>of \<open>this.el\<close>\<close>
  clone_box :: DomBox  \<comment> \<open>of the clone appended to \<open>document.body\<close>\<close>
  child_box :: "nat \<Rightarrow> DomBox"  \<comment> \<open>of \<open>this.el.children[i]\<close>\<close>

datatype etype = Mousedown | Mousemove | Mouseup

datatype target = TargetEl | TargetChild nat

record MouseEvent =
  type' :: etype
  pageX :: int
  pageY :: int
  offsetX :: int
  offsetY :: int
  target :: target

text \<open>A child of the container: its \<open>style.order\<close> and its \<open>drag-index\<close> attribute.\<close>

record child =
  order :: "int option"
  drag_index :: "int option"

datatype node = ElNode | CloneNode nat

text \<open>The inline style properties the class writes, in pixels.\<close>

record Style =
  style_top :: "int option"
  style_left :: "int option"
  style_width :: "int option"
  style_height :: "int option"

datatype error = TypeError | NotFoundError

text \<open>
  One \<open>XDraggable\<close> instance, with the parts of the environment it reads and writes:
  the children of its element, the children of \<open>document.body\<close>, the shared mask, the
  module-level \<open>draggablePools\<close>, \<open>localStorage\<close> (as the list of the \<open>setItem\<close> calls
  made, oldest first) and the calls made to the user's \<open>drag\<close> callback (oldest first).
  \<open>draggablePools\<close> holds the own properties of the object in creation order.
\<close>

record XDraggable =
  options :: DraggableOptions
  current :: "node option"
  info :: Info
  childrenInfos :: "int option \<Rightarrow> PositionItem option"
  eventFns_drag :: bool
  dragIndex :: int
  isResize :: bool
  children :: "child list"
  el_order :: "int option"
  el_drag_index :: "int option"
  styles :: "node \<Rightarrow> Style"
  body :: "node list"
  next_clone :: nat
  mask_display :: bool
  mask_className :: direction
  draggablePools :: "(string \<times> PositionItem) list"
  localStorage :: "(string \<times> string) list"
  drag_calls :: "(string \<times> int) list"

section \<open>Position of the dragged element\<close>

text \<open>\<open>computeElementPosition\<close> returns \<open>{top, left}\<close>, here the pair \<open>(top, left)\<close>.\<close>

definition computeElementPosition :: "MouseEvent \<Rightarrow> XDraggable \<Rightarrow> int \<times> int" where
  "computeElementPosition e s =
    (let i = info s;
         top0 = pageY e - offsetTop i;
         left0 = pageX e - offsetLeft i
     in if \<not> isAllowOut (options s) \<and> isChildren (options s) then
          (let maxTop = parentTop i + parentHeight i - currentHeight i;
               top1 = (if top0 < parentTop i then parentTop i
                       else if top0 > maxTop then maxTop else top0);
               maxLeft = parentLeft i + parentWidth i - currentWidth i;
               left1 = (if left0 < parentLeft i then parentLeft i
                        else if left0 > maxLeft then maxLeft else left0)
           in (top1, left1))
        else (top0, left0))"

section \<open>The drop registry\<close>

text \<open>
  \<open>draggablePools\<close> is a plain object.  \<open>for (const key in draggablePools)\<close> visits its
  own keys in the order ECMAScript (2020) fixes: first the keys that are array indices (the
  canonical decimal strings of the integers from 0 to 4294967294), in ascending numeric
  order, then the other string keys in the order they were created.  \<open>Object.prototype\<close>
  has no enumerable property, so nothing else is visited.
\<close>

definition is_digit :: "char \<Rightarrow> bool" where
  "is_digit c = (48 \<le> (of_char c :: nat) \<and> (of_char c :: nat) \<le> 57)"

definition index_value :: "string \<Rightarrow> int" where
  "index_value k = foldl (\<lambda>a c. 10 * a + ((of_char c :: int) - 48)) 0 k"

definition is_array_index :: "string \<Rightarrow> bool" where
  "is_array_index k =
    (k \<noteq> [] \<and> list_all is_digit k \<and> (k = ''0'' \<or> hd k \<noteq> CHR ''0'') \<and>
     index_value k < 2 ^ 32 - 1)"

definition for_in_keys :: "(string \<times> PositionItem) list \<Rightarrow> string list" where
  "for_in_keys ps =
    sort_key index_value (filter is_array_index (map fst ps)) @
    filter (\<lambda>k. \<not> is_array_index k) (map fst ps)"

text \<open>
  The assignment \<open>draggablePools[k] = v\<close>.  An existing own property keeps its place and
  takes the new value; a new key is created last.  The key \<open>__proto__\<close> creates no own
  property: the assignment runs the setter inherited from \<open>Object.prototype\<close> and
  replaces the prototype of \<open>draggablePools\<close> by \<open>v\<close>.  The inherited keys that \<open>for
  ... in\<close> then also visits (\<open>top\<close>, \<open>left\<close>, \<open>width\<close>, \<open>height\<close>) read numbers, whose
  \<open>.top\<close> is \<open>undefined\<close>, so the test of \<open>checkPoolsCoincide\<close> is false on them and the
  loop passes them by; they are left out of the model.
\<close>

definition pool_assign ::
  "string \<Rightarrow> PositionItem \<Rightarrow> (string \<times> PositionItem) list \<Rightarrow> (string \<times> PositionItem) list"
where
  "pool_assign k v ps =
    (if k = ''__proto__'' then ps
     else if k \<in> set (map fst ps) then map (\<lambda>(k', v'). if k' = k then (k', v) else (k', v')) ps
     else ps @ [(k, v)])"

text \<open>The test inside the loop of \<open>checkPoolsCoincide\<close>.\<close>

definition coincide :: "PositionItem \<Rightarrow> PositionItem \<Rightarrow> bool" where
  "coincide pool i =
    (top' pool < top' i \<and> top' pool + height pool > top' i \<and>
     left pool < left i \<and> left pool + width pool > left i)"

fun checkPoolsLoop ::
  "(string \<times> PositionItem) list \<Rightarrow> PositionItem \<Rightarrow> string list \<Rightarrow> string" where
  "checkPoolsLoop ps i [] = ''''"
| "checkPoolsLoop ps i (key # keys) =
    (case map_of ps key of
       Some pool \<Rightarrow> if coincide pool i then key else checkPoolsLoop ps i keys
     | None \<Rightarrow> checkPoolsLoop ps i keys)"

definition checkPoolsCoincide :: "PositionItem \<Rightarrow> XDraggable \<Rightarrow> string" where
  "checkPoolsCoincide i s =
    checkPoolsLoop (draggablePools s) i (for_in_keys (draggablePools s))"

section \<open>Snapshots of the layout\<close>

text \<open>\<open>this.$current.offsetTop\<close> and so on: \<open>$current\<close> is the element itself during a
  resize and a clone during a drag.\<close>

definition current_box :: "Layout \<Rightarrow> node \<Rightarrow> DomBox" where
  "current_box lay n = (case n of ElNode \<Rightarrow> el_box lay | CloneNode _ \<Rightarrow> clone_box lay)"

definition updateElementInfo :: "Layout \<Rightarrow> MouseEvent option \<Rightarrow> XDraggable \<Rightarrow> XDraggable" where
  "updateElementInfo lay e s =
    (let i0 = \<lparr> currentTop = 0, currentLeft = 0, currentWidth = 0, currentHeight = 0,
                offsetTop = 0, offsetLeft = 0,
                parentTop = boxTop (el_box lay), parentLeft = boxLeft (el_box lay),
                parentWidth = boxWidth (el_box lay), parentHeight = boxHeight (el_box lay) \<rparr>;
         i1 = (case e of
                 Some ev \<Rightarrow> i0 \<lparr> offsetTop := offsetY ev, offsetLeft := offsetX ev \<rparr>
               | None \<Rightarrow> i0);
         i2 = (case current s of
                 Some n \<Rightarrow> i1 \<lparr> currentTop := boxTop (current_box lay n),
                                currentLeft := boxLeft (current_box lay n),
                                currentWidth := boxWidth (current_box lay n),
                                currentHeight := boxHeight (current_box lay n) \<rparr>
               | None \<Rightarrow> i1)
     in s \<lparr> info := i2 \<rparr>)"

text \<open>The loop of \<open>updateChildrenInfo\<close>: a later child with the same order value
  overwrites an earlier one.\<close>

definition childInfo :: "Layout \<Rightarrow> nat \<Rightarrow> PositionItem" where
  "childInfo lay i =
    \<lparr> top' = boxTop (child_box lay i), left = boxLeft (child_box lay i),
      width = boxWidth (child_box lay i), height = boxHeight (child_box lay i),
      el = Some i \<rparr>"

definition buildChildrenInfos :: "Layout \<Rightarrow> child list \<Rightarrow> int option \<Rightarrow> PositionItem option" where
  "buildChildrenInfos lay cs =
    foldl (\<lambda>m i. m (order (cs ! i) \<mapsto> childInfo lay i)) Map.empty [0 ..< length cs]"

text \<open>\<open>updateChildrenInfo(children?)\<close>: without an argument the children are read from
  \<open>this.el.children\<close>.\<close>

definition updateChildrenInfo :: "Layout \<Rightarrow> child list option \<Rightarrow> XDraggable \<Rightarrow> XDraggable" where
  "updateChildrenInfo lay arg s =
    (let cs = (case arg of None \<Rightarrow> children s | Some cs' \<Rightarrow> cs')
     in s \<lparr> childrenInfos := buildChildrenInfos lay cs \<rparr>)"

section \<open>Construction\<close>

definition initDragPoolInfo :: "Layout \<Rightarrow> XDraggable \<Rightarrow> XDraggable" where
  "initDragPoolInfo lay s =
    (if \<not> isAllowIn (options s) then s
     else if dragId (options s) = None \<or> dragId (options s) = Some '''' then
       s \<lparr> options := (options s) \<lparr> isAllowIn := False \<rparr> \<rparr>
     else
       (let s1 = updateElementInfo lay None s;
            i = info s1
        in s1 \<lparr> draggablePools :=
                  pool_assign (the (dragId (options s)))
                    \<lparr> top' = parentTop i, left = parentLeft i, width = parentWidth i,
                      height = parentHeight i, el = None \<rparr>
                    (draggablePools s1) \<rparr>))"

text \<open>The loop of \<open>initChildren\<close> gives child \<open>i\<close> the attribute \<open>drag-index\<close> and the
  order \<open>i\<close>.  The CSS classes it adds play no part in what follows and are left out,
  as is \<open>insertStyle\<close>.\<close>

definition initChildren :: "Layout \<Rightarrow> XDraggable \<Rightarrow> XDraggable" where
  "initChildren lay s =
    (if isChildren (options s) then
       (if length (children s) \<le> 0 then
          s \<lparr> options := (options s) \<lparr> isChildren := False \<rparr> \<rparr>
        else
          (let cs = map (\<lambda>i. (children s ! i) \<lparr> drag_index := Some (int i), order := Some (int i) \<rparr>)
                      [0 ..< length (children s)];
               s1 = s \<lparr> children := cs \<rparr>
           in if isSort (options s1) then updateChildrenInfo lay (Some cs) s1 else s1))
     else s)"

text \<open>\<open>initDragHandleElement\<close> appends the handle, a new \<open>div\<close> without order value or
  \<open>drag-index\<close>, to the children of the element.\<close>

definition initDragHandleElement :: "XDraggable \<Rightarrow> XDraggable" where
  "initDragHandleElement s =
    (if direction (options s) = DNone then s
     else s \<lparr> children := children s @ [\<lparr> order = None, drag_index = None \<rparr>] \<rparr>)"

text \<open>\<open>initEvents\<close> creates the mask if there is none; the style sheet hides it
  (\<open>display: none\<close>) until a handler shows it.\<close>

definition init :: "Layout \<Rightarrow> XDraggable \<Rightarrow> XDraggable" where
  "init lay s = initDragHandleElement (initChildren lay (initDragPoolInfo lay s))"

text \<open>
  \<open>new XDraggable(el, options)\<close>: the field initialisers, then \<open>init\<close>.  The third
  argument is the environment the instance starts in; only its environment fields
  are read (the children of the element and their attributes, the registry, the
  storage, the inline styles and the document body).
\<close>

definition new_XDraggable :: "DraggableOptions \<Rightarrow> Layout \<Rightarrow> XDraggable \<Rightarrow> XDraggable" where
  "new_XDraggable opts lay env =
    init lay (env \<lparr> options := opts, current := None,
                    info := \<lparr> currentTop = 0, currentLeft = 0, currentWidth = 0,
                              currentHeight = 0, offsetTop = 0, offsetLeft = 0, parentTop = 0,
                              parentLeft = 0, parentWidth = 0, parentHeight = 0 \<rparr>,
                    childrenInfos := Map.empty, eventFns_drag := False, dragIndex := - 1,
                    isResize := False \<rparr>)"

section \<open>Resizing\<close>

text \<open>\<open>n + ''\<close> for an integer \<open>n\<close>: its decimal digits, after a minus sign when it is
  negative (JavaScript prints every integer of the size of a pixel offset so).\<close>

fun digits :: "nat \<Rightarrow> string" where
  "digits n = (if n < 10 then [char_of (48 + n)] else digits (n div 10) @ [char_of (48 + n mod 10)])"

declare digits.simps [simp del]

definition toString :: "int \<Rightarrow> string" where
  "toString n = (if n < 0 then CHR ''-'' # digits (nat (- n)) else digits (nat n))"

text \<open>\<open>'drag-' + this.options.resizeId + '-size'\<close>: a missing \<open>resizeId\<close> is rendered
  as \<open>undefined\<close>.\<close>

definition storageKey :: "string option \<Rightarrow> string" where
  "storageKey r = ''drag-'' @ (case r of None \<Rightarrow> ''undefined'' | Some x \<Rightarrow> x) @ ''-size''"

text \<open>The value of the local variable \<open>size\<close> of \<open>computeElementSize\<close>.\<close>

definition computedSize :: "direction \<Rightarrow> Info \<Rightarrow> MouseEvent \<Rightarrow> int" where
  "computedSize d i e =
    (case d of
       DRight \<Rightarrow> (let x = pageX e - (currentLeft i + parentWidth i) in parentWidth i + x)
     | DLeft \<Rightarrow> (let x = currentLeft i - pageX e in parentWidth i + x)
     | DTop \<Rightarrow> (let y = currentTop i - pageY e in parentHeight i + y)
     | DBottom \<Rightarrow> (let y = pageY e - (currentTop i + parentHeight i) in parentHeight i + y)
     | DNone \<Rightarrow> 0)"

text \<open>The \<open>Style\<close> of a node records the pixel values the class assigns to it.\<close>

definition setElementSize :: "int \<Rightarrow> XDraggable \<Rightarrow> XDraggable" where
  "setElementSize size' s =
    (let d = direction (options s) in
     if d = DLeft \<or> d = DRight then
       s \<lparr> styles := (styles s) (ElNode := (styles s ElNode) \<lparr> style_width := Some size' \<rparr>) \<rparr>
     else if d = DTop \<or> d = DBottom then
       s \<lparr> styles := (styles s) (ElNode := (styles s ElNode) \<lparr> style_height := Some size' \<rparr>) \<rparr>
     else s)"

definition computeElementSize :: "MouseEvent \<Rightarrow> bool \<Rightarrow> XDraggable \<Rightarrow> XDraggable" where
  "computeElementSize e isSave s =
    (let size' = computedSize (direction (options s)) (info s) e;
         s1 = setElementSize size' s
     in if isSave then
          s1 \<lparr> localStorage := localStorage s1 @ [(storageKey (resizeId (options s1)), toString size')] \<rparr>
        else s1)"

text \<open>\<open>this.$mask\<close> is set by \<open>initEvents\<close> and never cleared, so the test
  \<open>!this.$mask\<close> of the \<open>mousedown\<close> branch is false.\<close>

definition handleResize :: "Layout \<Rightarrow> MouseEvent \<Rightarrow> XDraggable \<Rightarrow> XDraggable" where
  "handleResize lay e s =
    (if type' e = Mouseup then
       (computeElementSize e True s) \<lparr> mask_display := False, mask_className := DNone,
                                        isResize := False \<rparr>
     else if type' e = Mousemove then computeElementSize e False s
     else
       updateElementInfo lay (Some e)
         (s \<lparr> mask_display := True, mask_className := direction (options s),
               current := Some ElNode, isResize := True \<rparr>))"

section \<open>Reordering\<close>

text \<open>The value of the local variable \<open>index\<close> of the function passed to \<open>debounce\<close>,
  after the first \<open>if\<close> ... \<open>else if\<close>.\<close>

definition sortIndex :: "PositionItem \<Rightarrow> XDraggable \<Rightarrow> int" where
  "sortIndex i s =
    (let d = dragIndex s in
     if (case childrenInfos s (Some (d - 1)) of
           None \<Rightarrow> False | Some p \<Rightarrow> top' p \<ge> top' i - 10) then d - 1
     else if (case childrenInfos s (Some (d + 1)) of
                None \<Rightarrow> False | Some p \<Rightarrow> top' p \<le> top' i + 10) then d + 1
     else - 1)"

text \<open>The assignment to \<open>style.order\<close> of the child that the reference \<open>a\<close> denotes.\<close>

definition setOrder :: "nat \<Rightarrow> int \<Rightarrow> XDraggable \<Rightarrow> XDraggable" where
  "setOrder a n s = s \<lparr> children := (children s) [a := (children s ! a) \<lparr> order := Some n \<rparr>] \<rparr>"

text \<open>
  The function passed to \<open>debounce\<close>.  Reading \<open>.el!.style\<close> of a table entry without
  \<open>el\<close>, or \<open>.el\<close> of a missing entry, throws a \<open>TypeError\<close>.
\<close>

definition checkChildrenSort :: "Layout \<Rightarrow> PositionItem \<Rightarrow> XDraggable \<Rightarrow> error + XDraggable" where
  "checkChildrenSort lay i s =
    (let index = sortIndex i s; d = dragIndex s in
     if index \<ge> 0 then
       (case childrenInfos s (Some d) of
          None \<Rightarrow> Inr s
        | Some pd \<Rightarrow>
          (case el pd of
             None \<Rightarrow> Inl TypeError
           | Some a \<Rightarrow>
             (let s1 = setOrder a index s in
              case childrenInfos s1 (Some index) of
                None \<Rightarrow> Inl TypeError
              | Some pi \<Rightarrow>
                (case el pi of
                   None \<Rightarrow> Inl TypeError
                 | Some b \<Rightarrow>
                   (let s2 = setOrder b d s1;
                        temp = childrenInfos s2 (Some d);
                        s3 = s2 \<lparr> childrenInfos :=
                                   (childrenInfos s2) (Some d := childrenInfos s2 (Some index)) \<rparr>;
                        s4 = s3 \<lparr> childrenInfos := (childrenInfos s3) (Some index := temp) \<rparr>;
                        s5 = s4 \<lparr> dragIndex := index \<rparr>
                    in Inr (updateChildrenInfo lay None s5))))))
     else Inr s)"

text \<open>
  \<open>this.checkChildrenSort\<close> is that function wrapped by lodash's \<open>debounce\<close>.  Whether a
  call runs the function at once is decided by lodash from its timer; the decision is
  the argument \<open>invoke\<close>.  The section on the debounced reorder check below models the
  wrapper itself, and computes the decisions from the times of the calls.
\<close>

definition checkChildrenSort_debounced ::
  "bool \<Rightarrow> Layout \<Rightarrow> PositionItem \<Rightarrow> XDraggable \<Rightarrow> error + XDraggable" where
  "checkChildrenSort_debounced invoke lay i s = (if invoke then checkChildrenSort lay i s else Inr s)"

section \<open>Dragging\<close>

text \<open>\<open>parseInt(v || '-1')\<close> on an order value or \<open>drag-index\<close> attribute.\<close>

definition parseInt_or :: "int option \<Rightarrow> int" where
  "parseInt_or v = (case v of None \<Rightarrow> - 1 | Some n \<Rightarrow> n)"

text \<open>The order value and the \<open>drag-index\<close> attribute of the element an event hit (an
  event never hits a child that does not exist).\<close>

definition target_order :: "target \<Rightarrow> XDraggable \<Rightarrow> int option" where
  "target_order t s =
    (case t of TargetEl \<Rightarrow> el_order s
     | TargetChild k \<Rightarrow> if k < length (children s) then order (children s ! k) else None)"

definition target_drag_index :: "target \<Rightarrow> XDraggable \<Rightarrow> int option" where
  "target_drag_index t s =
    (case t of TargetEl \<Rightarrow> el_drag_index s
     | TargetChild k \<Rightarrow> if k < length (children s) then drag_index (children s ! k) else None)"

definition reanderCurrentStyle :: "int \<times> int \<Rightarrow> XDraggable \<Rightarrow> error + XDraggable" where
  "reanderCurrentStyle pos s =
    (case current s of
       None \<Rightarrow> Inl TypeError
     | Some n \<Rightarrow>
       Inr (s \<lparr> styles := (styles s)
                  (n := (styles s n) \<lparr> style_top := Some (fst pos), style_left := Some (snd pos) \<rparr>) \<rparr>))"

text \<open>\<open>document.body.removeChild(this.$current!)\<close>.\<close>

definition removeChild :: "node option \<Rightarrow> XDraggable \<Rightarrow> error + XDraggable" where
  "removeChild n s =
    (case n of
       None \<Rightarrow> Inl TypeError
     | Some c \<Rightarrow> if c \<in> set (body s) then Inr (s \<lparr> body := remove1 c (body s) \<rparr>)
                 else Inl NotFoundError)"

text \<open>The \<open>mousedown\<close> part of \<open>handleDraggable\<close>.  The clone is a new node; a clone of
  the element starts with the element's inline style.\<close>

definition startDrag :: "Layout \<Rightarrow> MouseEvent \<Rightarrow> XDraggable \<Rightarrow> XDraggable" where
  "startDrag lay e s =
    (let tgt = (if isChildren (options s) then target e else TargetEl);
         c = CloneNode (next_clone s);
         s1 = s \<lparr> current := Some c, next_clone := Suc (next_clone s),
                  styles := (if tgt = TargetEl then (styles s) (c := styles s ElNode) else styles s) \<rparr>;
         s2 = s1 \<lparr> mask_display := True \<rparr>;
         s3 = (if isSort (options s2) then s2 \<lparr> dragIndex := parseInt_or (target_order tgt s2) \<rparr>
               else s2 \<lparr> dragIndex := parseInt_or (target_drag_index tgt s2) \<rparr>);
         s4 = s3 \<lparr> body := body s3 @ [c] \<rparr>
     in updateElementInfo lay (Some e) s4)"

text \<open>The \<open>mouseup\<close> part of \<open>handleDraggable\<close> up to \<open>removeChild\<close>: the user's callback
  is called with \<open>{id: dragId, index: this.dragIndex}\<close>.\<close>

definition dropCheck :: "MouseEvent \<Rightarrow> XDraggable \<Rightarrow> XDraggable" where
  "dropCheck e s =
    (if isAllowOut (options s) then
       (let dragId = checkPoolsCoincide
                       \<lparr> top' = pageY e, left = pageX e, width = 0, height = 0, el = None \<rparr> s
        in if dragId \<noteq> '''' \<and> eventFns_drag s then
             s \<lparr> drag_calls := drag_calls s @ [(dragId, dragIndex s)] \<rparr>
           else s)
     else s)"

definition handleDraggable ::
  "Layout \<Rightarrow> bool \<Rightarrow> MouseEvent \<Rightarrow> XDraggable \<Rightarrow> error + XDraggable" where
  "handleDraggable lay invoke e s =
    (let s1 = (if type' e = Mousedown then startDrag lay e s else s);
         position = computeElementPosition e s1
     in case reanderCurrentStyle position s1 of
          Inl x \<Rightarrow> Inl x
        | Inr s2 \<Rightarrow>
          if type' e = Mouseup then
            (let s3 = s2 \<lparr> mask_display := False, mask_className := DNone \<rparr>;
                 s4 = dropCheck e s3
             in removeChild (current s4) s4)
          else if type' e = Mousemove then
            checkChildrenSort_debounced invoke lay
              \<lparr> top' = fst position, left = snd position, width = 0, height = 0, el = None \<rparr> s2
          else Inr s2)"

definition handleUserMove ::
  "Layout \<Rightarrow> bool \<Rightarrow> MouseEvent \<Rightarrow> XDraggable \<Rightarrow> error + XDraggable" where
  "handleUserMove lay invoke e s =
    (if isResize s then Inr (handleResize lay e s) else handleDraggable lay invoke e s)"

section \<open>Events\<close>

text \<open>
  What can happen to an instance after its construction:
  \<^item> \<open>ElMousedown\<close>: a \<open>mousedown\<close> reaches the listener of the element;
  \<^item> \<open>HandleMousedown\<close>: a \<open>mousedown\<close> on the resize handle, whose listener sets
    \<open>isResize\<close> before the event bubbles to the listener of the element;
  \<^item> \<open>MaskEvent\<close>: a \<open>mousemove\<close> or \<open>mouseup\<close> reaches the listeners of the mask, with
    the decision lodash takes if the handler calls \<open>checkChildrenSort\<close>;
  \<^item> \<open>Trailing\<close>: a run of the reorder function from lodash's timer, should lodash
    make one; the model allows it at any moment and with any argument;
  \<^item> \<open>On_drag\<close>: the user registers a callback with \<open>on('drag', fn)\<close>.

  The style sheet of \<open>insertStyle\<close> hides the mask (\<open>display: none\<close>) unless a handler
  shows it, and a shown mask covers the viewport above everything else
  (\<open>position: fixed\<close>, \<open>z-index: 9999\<close>): the mask receives events only while it is
  shown, the element and its handle only while it is hidden.  An event that is not
  delivered leaves the state as it is.  The listeners of the mask call the instance in
  the module variable \<open>_this\<close>, which every \<open>mousedown\<close> sets to the instance that
  receives it: the events of a gesture reach the instance on which the gesture began,
  the one modelled here.  An exception ends the run.
\<close>

datatype event =
    ElMousedown Layout MouseEvent
  | HandleMousedown Layout MouseEvent
  | MaskEvent Layout bool MouseEvent
  | Trailing Layout PositionItem
  | On_drag

definition dispatch :: "event \<Rightarrow> XDraggable \<Rightarrow> error + XDraggable" where
  "dispatch ev s =
    (case ev of
       ElMousedown lay e \<Rightarrow>
         if mask_display s \<or> type' e \<noteq> Mousedown then Inr s
         else handleUserMove lay False e s
     | HandleMousedown lay e \<Rightarrow>
         if mask_display s \<or> type' e \<noteq> Mousedown \<or> direction (options s) = DNone then Inr s
         else handleUserMove lay False e (s \<lparr> isResize := True \<rparr>)
     | MaskEvent lay invoke e \<Rightarrow>
         if \<not> mask_display s \<or> type' e = Mousedown then Inr s
         else handleUserMove lay invoke e s
     | Trailing lay i \<Rightarrow> checkChildrenSort lay i s
     | On_drag \<Rightarrow> Inr (s \<lparr> eventFns_drag := True \<rparr>))"

fun run :: "event list \<Rightarrow> XDraggable \<Rightarrow> error + XDraggable" where
  "run [] s = Inr s"
| "run (ev # evs) s = (case dispatch ev s of Inl x \<Rightarrow> Inl x | Inr s' \<Rightarrow> run evs s')"


section \<open>Gestures\<close>

text \<open>A \<open>mousemove\<close> on the mask.\<close>

fun is_mousemove :: "event \<Rightarrow> bool" where
  "is_mousemove (MaskEvent lay invoke e) = (type' e = Mousemove)"
| "is_mousemove ev = False"

text \<open>What a resize gesture leaves alone between two of its states.\<close>

definition resizing :: "XDraggable \<Rightarrow> XDraggable \<Rightarrow> bool" where
  "resizing s s' =
    (isResize s' \<and> mask_display s' \<and> info s' = info s \<and> options s' = options s \<and>
     localStorage s' = localStorage s \<and>
     style_top (styles s' ElNode) = style_top (styles s ElNode) \<and>
     style_left (styles s' ElNode) = style_left (styles s ElNode) \<and>
     (direction (options s) = DLeft \<or> direction (options s) = DRight \<longrightarrow>
        style_height (styles s' ElNode) = style_height (styles s ElNode)) \<and>
     (direction (options s) = DTop \<or> direction (options s) = DBottom \<longrightarrow>
        style_width (styles s' ElNode) = style_width (styles s ElNode)))"



section \<open>Invariants\<close>

text \<open>The table refers to the children: every entry holds a reference to an existing child
  whose order value is the key of the entry.\<close>

definition table_ok :: "XDraggable \<Rightarrow> bool" where
  "table_ok s =
    (\<forall>k p. childrenInfos s k = Some p \<longrightarrow>
       (\<exists>a. el p = Some a \<and> a < length (children s) \<and> order (children s ! a) = k))"

text \<open>The order value of the handle, when the container has one.\<close>

definition handle_orders :: "XDraggable \<Rightarrow> int option set" where
  "handle_orders s = (if direction (options s) = DNone then {} else {None})"

text \<open>The state of a sortable container with \<open>n\<close> items: the order values of the children
  are the integers below \<open>n\<close>, each once (and the empty order value of the handle),
  and the table has an entry for each of these integers.\<close>

definition sortable :: "nat \<Rightarrow> XDraggable \<Rightarrow> bool" where
  "sortable n s =
    (table_ok s \<and> distinct (map order (children s)) \<and>
     set (map order (children s)) = Some ` {0 ..< int n} \<union> handle_orders s \<and>
     Some ` {0 ..< int n} \<subseteq> dom (childrenInfos s))"

text \<open>While the mask is shown for a drag, \<open>$current\<close> is a node of the document body.\<close>

definition drag_ok :: "XDraggable \<Rightarrow> bool" where
  "drag_ok s =
    (mask_display s \<and> \<not> isResize s \<longrightarrow> (\<exists>c. current s = Some c \<and> c \<in> set (body s)))"

text \<open>The state the reorder function returns when it swaps the children \<open>a\<close> and \<open>b\<close>
  (lemma \<open>checkChildrenSort_swap\<close> below), and the state \<open>reanderCurrentStyle\<close>
  returns when \<open>$current\<close> is the node \<open>c\<close>.\<close>

definition swapOrders :: "Layout \<Rightarrow> nat \<Rightarrow> nat \<Rightarrow> int \<Rightarrow> XDraggable \<Rightarrow> XDraggable" where
  "swapOrders lay a b index s =
    (let cs = (children s) [a := (children s ! a) \<lparr> order := Some index \<rparr>,
                            b := (children s ! b) \<lparr> order := Some (dragIndex s) \<rparr>]
     in s \<lparr> children := cs, childrenInfos := buildChildrenInfos lay cs, dragIndex := index \<rparr>)"

definition moved :: "int \<times> int \<Rightarrow> node \<Rightarrow> XDraggable \<Rightarrow> XDraggable" where
  "moved pos c s =
    s \<lparr> styles := (styles s)
           (c := (styles s c) \<lparr> style_top := Some (fst pos), style_left := Some (snd pos) \<rparr>) \<rparr>"

text \<open>Two states with the same children, table, options and registry.\<close>

definition same_sort :: "XDraggable \<Rightarrow> XDraggable \<Rightarrow> bool" where
  "same_sort s s' =
    (children s' = children s \<and> childrenInfos s' = childrenInfos s \<and> options s' = options s \<and>
     draggablePools s' = draggablePools s)"

text \<open>The children after the loop of \<open>initChildren\<close>, and the handle that
  \<open>initDragHandleElement\<close> appends.\<close>

definition numbered :: "child list \<Rightarrow> child list" where
  "numbered cs = map (\<lambda>i. (cs ! i) \<lparr> drag_index := Some (int i), order := Some (int i) \<rparr>) [0 ..< length cs]"

definition handle_child :: "direction \<Rightarrow> child list" where
  "handle_child d = (if d = DNone then [] else [\<lparr> order = None, drag_index = None \<rparr>])"



section \<open>The element after a resize\<close>


section \<open>The debounced reorder check\<close>

text \<open>
  \<open>this.checkChildrenSort\<close> is \<open>debounce(f, 200, {leading: true})\<close>, with \<open>f\<close> the reorder
  function above.  \<open>debounce\<close> is lodash's, which is not part of the repository; it is
  modelled here from its documentation: the debounced function "delays invoking \<open>func\<close>
  until after \<open>wait\<close> milliseconds have elapsed since the last time the debounced function
  was invoked"; the options say "whether \<open>func\<close> should be invoked on the leading and/or
  trailing edge of the \<open>wait\<close> timeout", \<open>leading\<close> being false and \<open>trailing\<close> true when
  they are not given; "\<open>func\<close> is invoked with the last arguments provided to the debounced
  function"; and "if \<open>leading\<close> and \<open>trailing\<close> options are true, \<open>func\<close> is invoked on the
  trailing edge of the timeout only if the debounced function is invoked more than once
  during the \<open>wait\<close> timeout".

  So the wrapper is idle, or it is waiting for a timeout to end and may keep arguments
  for the trailing edge.  A call of the idle wrapper starts the timeout and, with
  \<open>leading\<close>, invokes \<open>func\<close> at once.  A call of the waiting wrapper invokes nothing: it
  starts the timeout anew, and its arguments replace the ones kept.  When the timeout
  ends, \<open>wait\<close> milliseconds after the last call, the wrapper invokes \<open>func\<close> with the
  arguments kept, if \<open>trailing\<close> is set and there are any, and is idle again.

  Times are in milliseconds.  An invocation of \<open>func\<close> is recorded with its time, the edge
  it is made on and its arguments.
\<close>

datatype edge = LeadingEdge | TrailingEdge

text \<open>\<open>Waiting d p\<close>: the timeout ends at \<open>d\<close>, and \<open>p\<close> holds the arguments kept for the
  trailing edge.\<close>

datatype 'a debounced = Idle | Waiting int "'a option"

definition debounce_call ::
  "int \<Rightarrow> bool \<Rightarrow> int \<Rightarrow> 'a \<Rightarrow> 'a debounced \<Rightarrow> (int \<times> edge \<times> 'a) list \<times> 'a debounced" where
  "debounce_call wait leading t a w =
    (case w of
       Idle \<Rightarrow> if leading then ([(t, LeadingEdge, a)], Waiting (t + wait) None)
               else ([], Waiting (t + wait) (Some a))
     | Waiting d p \<Rightarrow> ([], Waiting (t + wait) (Some a)))"

definition debounce_expire ::
  "bool \<Rightarrow> 'a debounced \<Rightarrow> (int \<times> edge \<times> 'a) list \<times> 'a debounced" where
  "debounce_expire trailing w =
    (case w of
       Idle \<Rightarrow> ([], Idle)
     | Waiting d p \<Rightarrow>
         ((case p of Some a \<Rightarrow> if trailing then [(d, TrailingEdge, a)] else [] | None \<Rightarrow> []),
          Idle))"

text \<open>A timer runs when its time has come: a timeout that ends at or before the time of
  a call has ended when the call is made.\<close>

definition debounce_due :: "int \<Rightarrow> 'a debounced \<Rightarrow> bool" where
  "debounce_due t w = (case w of Idle \<Rightarrow> False | Waiting d p \<Rightarrow> d \<le> t)"

text \<open>The invocations of \<open>func\<close> that a sequence of calls of the debounced function, each
  with its time, leads to; after the last call the timeout runs to its end.\<close>

fun invocations ::
  "int \<Rightarrow> bool \<Rightarrow> bool \<Rightarrow> 'a debounced \<Rightarrow> (int \<times> 'a) list \<Rightarrow> (int \<times> edge \<times> 'a) list" where
  "invocations wait leading trailing w [] = fst (debounce_expire trailing w)"
| "invocations wait leading trailing w ((t, a) # cs) =
    (let (xs, w1) = (if debounce_due t w then debounce_expire trailing w else ([], w));
         (ys, w2) = debounce_call wait leading t a w1
     in xs @ ys @ invocations wait leading trailing w2 cs)"

text \<open>The wrapper of the class: \<open>wait\<close> is 200, \<open>leading\<close> is given as true, and \<open>trailing\<close>
  is not given, hence true.  It is idle when the instance is constructed.\<close>

definition checkChildrenSort_invocations ::
  "(int \<times> PositionItem) list \<Rightarrow> (int \<times> edge \<times> PositionItem) list" where
  "checkChildrenSort_invocations cs = invocations 200 True True Idle cs"

text \<open>The invocations run the reorder function one after the other, each on the state the
  one before has left and with the layout of its time; an exception ends the run.  (The
  calls themselves come from \<open>handleDraggable\<close>, which computes their arguments from the
  event and from \<open>this.info\<close> and \<open>this.options\<close>; the reorder function writes neither.)\<close>

fun reorder_runs ::
  "(int \<Rightarrow> Layout) \<Rightarrow> (int \<times> edge \<times> PositionItem) list \<Rightarrow> XDraggable \<Rightarrow> error + XDraggable" where
  "reorder_runs L [] s = Inr s"
| "reorder_runs L ((t, k, a) # xs) s =
    (case checkChildrenSort (L t) a s of Inl x \<Rightarrow> Inl x | Inr s' \<Rightarrow> reorder_runs L xs s')"

definition checkChildrenSort_timed ::
  "(int \<Rightarrow> Layout) \<Rightarrow> (int \<times> PositionItem) list \<Rightarrow> XDraggable \<Rightarrow> error + XDraggable" where
  "checkChildrenSort_timed L cs s = reorder_runs L (checkChildrenSort_invocations cs) s"

text \<open>The state such a run ends in.\<close>

definition timed_after ::
  "(int \<Rightarrow> Layout) \<Rightarrow> (int \<times> PositionItem) list \<Rightarrow> XDraggable \<Rightarrow> XDraggable" where
  "timed_after L cs s = (case checkChildrenSort_timed L cs s of Inr s' \<Rightarrow> s' | Inl x \<Rightarrow> s)"

text \<open>The argument of the call \<open>this.checkChildrenSort({...position, width: 0, height:
  0})\<close> in \<open>handleDraggable\<close>.\<close>

definition submitted :: "MouseEvent \<Rightarrow> XDraggable \<Rightarrow> PositionItem" where
  "submitted e s =
    (let position = computeElementPosition e s
     in \<lparr> top' = fst position, left = snd position, width = 0, height = 0, el = None \<rparr>)"

text \<open>Invocations in the order of time, with at least 200 milliseconds after an
  invocation at the leading edge, and never two invocations at the trailing edge in a
  row.\<close>

fun spaced :: "(int \<times> edge \<times> 'a) list \<Rightarrow> bool" where
  "spaced (x # y # xs) =
    (fst x \<le> fst y \<and> (fst (snd x) = LeadingEdge \<longrightarrow> fst x + 200 \<le> fst y) \<and>
     (fst (snd x) = TrailingEdge \<longrightarrow> fst (snd y) = LeadingEdge) \<and> spaced (y # xs))"
| "spaced xs = True"

section \<open>The resize formula of the specification\<close>

text \<open>The size as section 4.3 of the specification writes it, from the bounds of the
  container at the start of the gesture and the pointer; the specification gives no
  formula when there is no direction.\<close>

definition spec_resize_size :: "direction \<Rightarrow> DomBox \<Rightarrow> MouseEvent \<Rightarrow> int" where
  "spec_resize_size d start pointer =
    (case d of
       DRight \<Rightarrow> boxWidth start + (pageX pointer - (boxLeft start + boxWidth start))
     | DLeft \<Rightarrow> boxWidth start + (boxLeft start - pageX pointer)
     | DTop \<Rightarrow> boxHeight start + (boxTop start - pageY pointer)
     | DBottom \<Rightarrow> boxHeight start + (pageY pointer - (boxTop start + boxHeight start))
     | DNone \<Rightarrow> 0)"

text \<open>The target of the reorder check as section 4.5 of the specification words it: the
  index before the dragged one if the table has an entry there whose recorded top is at
  least the drag top minus 10, else the index after it if the table has an entry there
  whose recorded top is at most the drag top plus 10, else none.\<close>

definition spec_target :: "PositionItem \<Rightarrow> XDraggable \<Rightarrow> int option" where
  "spec_target i s =
    (let idx = dragIndex s in
     if (case childrenInfos s (Some (idx - 1)) of Some p \<Rightarrow> top' p \<ge> top' i - 10 | None \<Rightarrow> False)
     then Some (idx - 1)
     else if (case childrenInfos s (Some (idx + 1)) of Some p \<Rightarrow> top' p \<le> top' i + 10 | None \<Rightarrow> False)
     then Some (idx + 1)
     else None)"

text \<open>The decimal string of an integer, as the specification uses the words (\<open>350\<close> is
  stored as the string \<open>350\<close>): the decimal digits of its absolute value, the most
  significant first and without leading zeros, after a minus sign when it is negative.\<close>

definition spec_numeral :: "string \<Rightarrow> nat \<Rightarrow> bool" where
  "spec_numeral ds n =
    (ds \<noteq> [] \<and> list_all is_digit ds \<and> (hd ds = CHR ''0'' \<longrightarrow> ds = ''0'') \<and>
     foldl (\<lambda>a c. 10 * a + (of_char c - 48)) 0 ds = n)"

definition spec_decimal :: "string \<Rightarrow> int \<Rightarrow> bool" where
  "spec_decimal str n =
    (if n < 0 then str \<noteq> [] \<and> hd str = CHR ''-'' \<and> spec_numeral (tl str) (nat (- n))
     else spec_numeral str (nat n))"

text \<open>The rate limit as claim C3 states it: consecutive executions are at least 200
  milliseconds apart (at most one in any window of 200 milliseconds), and nothing is
  replayed later: every execution runs a submission at the time the submission is
  made.\<close>

fun spec_one_per_window :: "(int \<times> edge \<times> 'a) list \<Rightarrow> bool" where
  "spec_one_per_window (x # y # xs) = (fst x + 200 \<le> fst y \<and> spec_one_per_window (y # xs))"
| "spec_one_per_window xs = True"

definition spec_no_replay :: "(int \<times> 'a) list \<Rightarrow> (int \<times> edge \<times> 'a) list \<Rightarrow> bool" where
  "spec_no_replay cs xs = (\<forall>x\<in>set xs. (fst x, snd (snd x)) \<in> set cs)"

text \<open>What the debounced reorder check executes, submission by submission (\<open>prev\<close> is
  the time of the submission before): a submission is executed at once, at the leading
  edge, when it is the first one or comes at least 200 milliseconds after the one before
  it; any other submission is postponed, and is executed 200 milliseconds after it was
  made, at the trailing edge, when no further submission follows within these 200
  milliseconds; else it is dropped.\<close>

fun spec_invocations :: "int option \<Rightarrow> (int \<times> 'a) list \<Rightarrow> (int \<times> edge \<times> 'a) list" where
  "spec_invocations prev [] = []"
| "spec_invocations prev ((t, a) # cs) =
    (if (case prev of None \<Rightarrow> True | Some t0 \<Rightarrow> t0 + 200 \<le> t) then [(t, LeadingEdge, a)]
     else if (case cs of [] \<Rightarrow> True | c # cs' \<Rightarrow> t + 200 \<le> fst c)
       then [(t + 200, TrailingEdge, a)]
     else [])
    @ spec_invocations (Some t) cs"

section \<open>Scenarios\<close>

text \<open>The concrete documents, layouts and events on which the theorems below are
  evaluated.\<close>

definition no_options :: DraggableOptions where
  "no_options = \<lparr> dragId = None, isChildren = False, isAllowOut = False, isAllowIn = False,
                   isSort = False, resizeId = None, direction = DNone \<rparr>"

text \<open>A document in which no instance has been constructed yet; the element has no
  children.\<close>

definition blank_page :: XDraggable where
  "blank_page =
    \<lparr> options = no_options, current = None,
      info = \<lparr> currentTop = 0, currentLeft = 0, currentWidth = 0, currentHeight = 0,
               offsetTop = 0, offsetLeft = 0, parentTop = 0, parentLeft = 0, parentWidth = 0,
               parentHeight = 0 \<rparr>,
      childrenInfos = Map.empty, eventFns_drag = False, dragIndex = - 1, isResize = False,
      children = [], el_order = None, el_drag_index = None,
      styles = (\<lambda>n. \<lparr> style_top = None, style_left = None, style_width = None,
                        style_height = None \<rparr>),
      body = [], next_clone = 0, mask_display = False, mask_className = DNone,
      draggablePools = [], localStorage = [], drag_calls = [] \<rparr>"

definition box :: "int \<Rightarrow> int \<Rightarrow> int \<Rightarrow> int \<Rightarrow> DomBox" where
  "box t l w h = \<lparr> boxTop = t, boxLeft = l, boxWidth = w, boxHeight = h \<rparr>"

definition plain_child :: child where
  "plain_child = \<lparr> order = None, drag_index = None \<rparr>"

definition mouse :: "etype \<Rightarrow> int \<Rightarrow> int \<Rightarrow> int \<Rightarrow> int \<Rightarrow> target \<Rightarrow> MouseEvent" where
  "mouse ty px py ox oy tg =
    \<lparr> type' = ty, pageX = px, pageY = py, offsetX = ox, offsetY = oy, target = tg \<rparr>"

text \<open>The state a run ends in.\<close>

definition after :: "event list \<Rightarrow> XDraggable \<Rightarrow> XDraggable" where
  "after evs s = (case run evs s of Inr s' \<Rightarrow> s' | Inl x \<Rightarrow> s)"

text \<open>A container 10 pixels high whose only child is 20 pixels high, in children mode
  and without drag-out; the child is grabbed.\<close>

definition tall_layout :: Layout where
  "tall_layout = \<lparr> el_box = box 0 0 100 10, clone_box = box 0 0 100 20,
                    child_box = (\<lambda>i. box 0 0 100 20) \<rparr>"

definition tall_child_drag :: XDraggable where
  "tall_child_drag =
    after [ElMousedown tall_layout (mouse Mousedown 5 5 5 5 (TargetChild 0))]
      (new_XDraggable (no_options \<lparr> isChildren := True \<rparr>) tall_layout
         (blank_page \<lparr> children := [plain_child] \<rparr>))"

text \<open>A container at (100, 100), 200 wide and 100 high, in children mode and without
  drag-out; its first child, 30 pixels high, is grabbed.\<close>

definition tray_layout :: Layout where
  "tray_layout = \<lparr> el_box = box 100 100 200 100, clone_box = box 0 0 200 30,
                    child_box = (\<lambda>i. box (100 + 50 * int i) 100 200 30) \<rparr>"

definition small_child_drag :: XDraggable where
  "small_child_drag =
    after [ElMousedown tray_layout (mouse Mousedown 150 110 50 10 (TargetChild 0))]
      (new_XDraggable (no_options \<lparr> isChildren := True \<rparr>) tray_layout
         (blank_page \<lparr> children := [plain_child, plain_child] \<rparr>))"

text \<open>A panel at left 50, 300 wide, with a handle on its right edge and the resize
  identifier \<open>panelA\<close>; the handle is dragged until the pointer is at x = 400.\<close>

definition panel_layout :: Layout where
  "panel_layout = \<lparr> el_box = box 20 50 300 200, clone_box = box 0 0 0 0,
                     child_box = (\<lambda>i. box 0 0 0 0) \<rparr>"

definition panelA :: XDraggable where
  "panelA = new_XDraggable (no_options \<lparr> resizeId := Some ''panelA'', direction := DRight \<rparr>)
              panel_layout blank_page"

definition panelA_gesture :: "event list" where
  "panelA_gesture =
    [HandleMousedown panel_layout (mouse Mousedown 348 30 2 10 TargetEl),
     MaskEvent panel_layout True (mouse Mousemove 380 30 380 30 TargetEl),
     MaskEvent panel_layout True (mouse Mouseup 400 30 400 30 TargetEl)]"




section \<open>Building the registry\<close>

text \<open>A layout in which every box is \<open>b\<close>.\<close>

definition box_layout :: "DomBox \<Rightarrow> Layout" where
  "box_layout b = \<lparr> el_box = b, clone_box = b, child_box = (\<lambda>i. b) \<rparr>"

text \<open>The construction of a container that asks to be a drop target, with identifier
  and bounds \<open>kb\<close>, on its own element (without children) in the document \<open>env\<close>; and
  the construction of such containers one after the other in a blank document.\<close>

definition construct_tray :: "string \<times> DomBox \<Rightarrow> XDraggable \<Rightarrow> XDraggable" where
  "construct_tray kb env =
    new_XDraggable (no_options \<lparr> dragId := Some (fst kb), isAllowIn := True \<rparr>)
      (box_layout (snd kb)) (env \<lparr> children := [] \<rparr>)"

definition trays :: "(string \<times> DomBox) list \<Rightarrow> XDraggable" where
  "trays regs = foldl (\<lambda>env kb. construct_tray kb env) blank_page regs"

text \<open>The position of the first registration of \<open>k\<close> in a sequence of registrations
  (its length, when \<open>k\<close> is not registered).\<close>

definition first_pos :: "string \<Rightarrow> (string \<times> DomBox) list \<Rightarrow> nat" where
  "first_pos k regs = length (takeWhile (\<lambda>kb. fst kb \<noteq> k) regs)"

text \<open>A query point, as \<open>handleDraggable\<close> passes it.\<close>

definition point :: "int \<Rightarrow> int \<Rightarrow> PositionItem" where
  "point x y = \<lparr> top' = y, left = x, width = 0, height = 0, el = None \<rparr>"

definition pool_keys :: "XDraggable \<Rightarrow> string list" where
  "pool_keys s = map fst (draggablePools s)"

text \<open>Two overlapping trays, registered under names and under numbers.\<close>

definition named_trays :: "(string \<times> DomBox) list" where
  "named_trays = [(''trayA'', box 0 0 100 100), (''trayB'', box 50 50 100 100)]"

definition numbered_trays :: "(string \<times> DomBox) list" where
  "numbered_trays = [(''2'', box 0 0 100 100), (''1'', box 50 50 100 100)]"

section \<open>Scenarios for sorting\<close>

text \<open>A container 200 pixels high with three children one below the other, each 50 pixels
  high (tops 0, 50 and 100): sortable, sortable with a resize handle, and in children mode without
  sorting.  The events: a grab of the container itself (below its last child), a grab of the first child, a
  move of the pointer 40 pixels down (with the reorder function run at once), and the
  release.\<close>

definition list_layout :: Layout where
  "list_layout = \<lparr> el_box = box 0 0 200 200, clone_box = box 0 0 200 50,
                    child_box = (\<lambda>i. box (50 * int i) 0 200 50) \<rparr>"

definition three_children :: XDraggable where
  "three_children = blank_page \<lparr> children := [plain_child, plain_child, plain_child] \<rparr>"

definition sort_list :: XDraggable where
  "sort_list =
    new_XDraggable (no_options \<lparr> isChildren := True, isSort := True \<rparr>) list_layout
      three_children"

definition handle_list :: XDraggable where
  "handle_list =
    new_XDraggable (no_options \<lparr> isChildren := True, isSort := True, direction := DRight \<rparr>)
      list_layout three_children"

definition plain_list :: XDraggable where
  "plain_list = new_XDraggable (no_options \<lparr> isChildren := True \<rparr>) list_layout three_children"

definition grab_container :: event where
  "grab_container = ElMousedown list_layout (mouse Mousedown 10 180 10 180 TargetEl)"

definition grab_first :: event where
  "grab_first = ElMousedown list_layout (mouse Mousedown 10 10 10 10 (TargetChild 0))"

definition pull_down :: event where
  "pull_down = MaskEvent list_layout True (mouse Mousemove 10 50 10 50 TargetEl)"

definition release :: event where
  "release = MaskEvent list_layout True (mouse Mouseup 10 50 10 50 TargetEl)"

definition grabbed_container :: XDraggable where
  "grabbed_container = after [grab_container] sort_list"

definition grabbed_first :: XDraggable where
  "grabbed_first = after [grab_first] sort_list"

section \<open>Scenarios for dropping\<close>





section \<open>Scenarios for the debounced check\<close>

text \<open>The first child of the sortable list is grabbed, and the layout stays as it is.
  \<open>nudge\<close> moves the pointer 5 pixels down, which reorders nothing; \<open>pull\<close> moves it 40
  pixels down, below the second child.  \<open>burst\<close>: a nudge and, 50 milliseconds later, a
  pull; \<open>bursts\<close>: the same and another pull 260 milliseconds after the first move;
  \<open>strokes\<close>: five moves, of which the second is followed by the third within 200
  milliseconds.\<close>

definition still :: "int \<Rightarrow> Layout" where
  "still t = list_layout"

definition nudge :: MouseEvent where
  "nudge = mouse Mousemove 10 15 10 15 TargetEl"

definition pull :: MouseEvent where
  "pull = mouse Mousemove 10 50 10 50 TargetEl"

definition burst :: "(int \<times> PositionItem) list" where
  "burst = [(0, submitted nudge grabbed_first), (50, submitted pull grabbed_first)]"

definition bursts :: "(int \<times> PositionItem) list" where
  "bursts = burst @ [(260, submitted pull grabbed_first)]"

definition strokes :: "(int \<times> PositionItem) list" where
  "strokes =
    [(0, submitted nudge grabbed_first), (50, submitted nudge grabbed_first),
     (120, submitted pull grabbed_first), (400, submitted pull grabbed_first),
     (650, submitted nudge grabbed_first)]"

section \<open>Evaluation\<close>

lemmas scenario_defs = no_options_def blank_page_def box_def plain_child_def mouse_def after_def

lemmas model_defs = new_XDraggable_def init_def initDragPoolInfo_def initChildren_def
  initDragHandleElement_def dispatch_def handleUserMove_def handleDraggable_def startDrag_def
  updateElementInfo_def current_box_def reanderCurrentStyle_def computeElementPosition_def
  parseInt_or_def target_order_def target_drag_index_def handleResize_def computeElementSize_def
  setElementSize_def computedSize_def checkChildrenSort_debounced_def checkChildrenSort_def
  sortIndex_def setOrder_def updateChildrenInfo_def buildChildrenInfos_def childInfo_def
  dropCheck_def removeChild_def checkPoolsCoincide_def


section \<open>Resize gestures\<close>

lemma computeElementSize_frame:
  "info (computeElementSize e b s) = info s"
  "options (computeElementSize e b s) = options s"
  "isResize (computeElementSize e b s) = isResize s"
  "mask_display (computeElementSize e b s) = mask_display s"
  "style_top (styles (computeElementSize e b s) ElNode) = style_top (styles s ElNode)"
  "style_left (styles (computeElementSize e b s) ElNode) = style_left (styles s ElNode)"
  by (simp_all add: computeElementSize_def setElementSize_def Let_def)

lemma computeElementSize_other:
  "direction (options s) = DLeft \<or> direction (options s) = DRight \<Longrightarrow>
   style_height (styles (computeElementSize e b s) ElNode) = style_height (styles s ElNode)"
  "direction (options s) = DTop \<or> direction (options s) = DBottom \<Longrightarrow>
   style_width (styles (computeElementSize e b s) ElNode) = style_width (styles s ElNode)"
  by (auto simp add: computeElementSize_def setElementSize_def Let_def)

lemma computeElementSize_storage:
  "localStorage (computeElementSize e b s) =
    (if b then localStorage s @ [(storageKey (resizeId (options s)),
                                  toString (computedSize (direction (options s)) (info s) e))]
     else localStorage s)"
  by (simp add: computeElementSize_def setElementSize_def Let_def)



lemma resize_move:
  assumes "isResize s" "mask_display s" "is_mousemove m"
  shows "\<exists>s'. dispatch m s = Inr s' \<and> resizing s s'"
proof (cases m)
  case (MaskEvent lay invoke e)
  with assms have "type' e = Mousemove" by simp
  with assms MaskEvent show ?thesis
    by (simp add: dispatch_def handleUserMove_def handleResize_def resizing_def
        computeElementSize_frame computeElementSize_storage computeElementSize_other)
qed (use assms in simp_all)

lemma resizing_trans: "resizing s s' \<Longrightarrow> resizing s' s'' \<Longrightarrow> resizing s s''"
  by (auto simp add: resizing_def)

lemma resize_moves:
  assumes "isResize s" "mask_display s" "\<forall>m\<in>set moves. is_mousemove m"
  shows "\<exists>s'. run moves s = Inr s' \<and> (moves = [] \<and> s' = s \<or> resizing s s')"
  using assms
proof (induction moves arbitrary: s)
  case Nil
  then show ?case by simp
next
  case (Cons m moves)
  then obtain s1 where s1: "dispatch m s = Inr s1" "resizing s s1"
    using resize_move by (metis list.set_intros(1))
  then have "isResize s1" "mask_display s1" by (simp_all add: resizing_def)
  with Cons obtain s2 where s2: "run moves s1 = Inr s2" "moves = [] \<and> s2 = s1 \<or> resizing s1 s2"
    by (metis list.set_intros(2))
  with s1 have "resizing s s2" using resizing_trans by blast
  with s1 s2 show ?case by simp
qed

lemma run_append:
  "run xs s = Inr s' \<Longrightarrow> run (xs @ ys) s = run ys s'"
  by (induction xs arbitrary: s) (auto split: sum.splits)

lemma handle_mousedown:
  assumes "\<not> mask_display s" "direction (options s) \<noteq> DNone" "type' e0 = Mousedown"
  shows "dispatch (HandleMousedown lay e0) s =
           Inr (handleResize lay e0 (s \<lparr> isResize := True \<rparr>))"
  using assms by (simp add: dispatch_def handleUserMove_def)

lemma handleResize_mousedown:
  assumes "type' e0 = Mousedown"
  shows "isResize (handleResize lay e0 s)" "mask_display (handleResize lay e0 s)"
    "options (handleResize lay e0 s) = options s"
    "localStorage (handleResize lay e0 s) = localStorage s"
    "styles (handleResize lay e0 s) = styles s"
  using assms
  by (simp_all add: handleResize_def updateElementInfo_def current_box_def Let_def)

lemma resize_gesture:
  assumes "\<not> mask_display s" "direction (options s) \<noteq> DNone" "type' e0 = Mousedown"
    and "\<forall>m\<in>set moves. is_mousemove m"
  shows "\<exists>s1. run (HandleMousedown lay e0 # moves) s = Inr s1 \<and> isResize s1 \<and> mask_display s1 \<and>
           options s1 = options s \<and> localStorage s1 = localStorage s \<and>
           info s1 = info (handleResize lay e0 (s \<lparr> isResize := True \<rparr>)) \<and>
           style_top (styles s1 ElNode) = style_top (styles s ElNode) \<and>
           style_left (styles s1 ElNode) = style_left (styles s ElNode) \<and>
           (direction (options s) = DLeft \<or> direction (options s) = DRight \<longrightarrow>
              style_height (styles s1 ElNode) = style_height (styles s ElNode)) \<and>
           (direction (options s) = DTop \<or> direction (options s) = DBottom \<longrightarrow>
              style_width (styles s1 ElNode) = style_width (styles s ElNode))"
proof -
  let ?s0 = "handleResize lay e0 (s \<lparr> isResize := True \<rparr>)"
  have d: "dispatch (HandleMousedown lay e0) s = Inr ?s0"
    using assms by (simp add: handle_mousedown)
  have s0: "isResize ?s0" "mask_display ?s0" "options ?s0 = options s"
    "localStorage ?s0 = localStorage s" "styles ?s0 = styles s"
    using assms(3) by (simp_all add: handleResize_mousedown)
  from resize_moves [OF s0(1) s0(2) assms(4)]
  obtain s1 where s1: "run moves ?s0 = Inr s1" "moves = [] \<and> s1 = ?s0 \<or> resizing ?s0 s1"
    by blast
  from s1(2) s0 have "isResize s1 \<and> mask_display s1 \<and> options s1 = options s \<and>
           localStorage s1 = localStorage s \<and> info s1 = info ?s0 \<and>
           style_top (styles s1 ElNode) = style_top (styles s ElNode) \<and>
           style_left (styles s1 ElNode) = style_left (styles s ElNode) \<and>
           (direction (options s) = DLeft \<or> direction (options s) = DRight \<longrightarrow>
              style_height (styles s1 ElNode) = style_height (styles s ElNode)) \<and>
           (direction (options s) = DTop \<or> direction (options s) = DBottom \<longrightarrow>
              style_width (styles s1 ElNode) = style_width (styles s ElNode))"
    by (auto simp add: resizing_def)
  with d s1(1) show ?thesis by simp
qed

lemma resize_last:
  assumes "isResize s1" "mask_display s1" "type' e \<noteq> Mousedown"
  shows "dispatch (MaskEvent lay' invoke e) s1 =
           Inr (handleResize lay' e s1)"
  using assms by (simp add: dispatch_def handleUserMove_def)



lemma handleResize_mouseup_storage:
  "type' e = Mouseup \<Longrightarrow>
   localStorage (handleResize lay e s) =
     localStorage s @ [(storageKey (resizeId (options s)),
                        toString (computedSize (direction (options s)) (info s) e))]"
  by (simp add: handleResize_def computeElementSize_storage)

lemma panelA_idle:
  "\<not> mask_display panelA" "direction (options panelA) = DRight"
  "resizeId (options panelA) = Some ''panelA''" "localStorage panelA = []"
  by (simp_all add: panelA_def panel_layout_def scenario_defs model_defs Let_def)

lemma toString_350: "toString 350 = ''350''"
  by code_simp

text \<open>At the \<open>mousedown\<close> of a resize gesture \<open>$current\<close> is the element itself, so the
  snapshot holds the bounds of the element both as \<open>current...\<close> and as \<open>parent...\<close>.\<close>

lemma start_size:
  "type' e0 = Mousedown \<Longrightarrow>
   computedSize d (info (handleResize lay e0 s)) e = spec_resize_size d (el_box lay) e"
  by (simp add: handleResize_def updateElementInfo_def current_box_def Let_def
      computedSize_def spec_resize_size_def split: direction.splits)

section \<open>The registry: creation order and enumeration order\<close>

lemma construct_tray_pools:
  "draggablePools (construct_tray (k, b) env) =
    (if k = '''' then draggablePools env
     else pool_assign k \<lparr> top' = boxTop b, left = boxLeft b, width = boxWidth b,
                          height = boxHeight b, el = None \<rparr> (draggablePools env))"
  by (simp add: construct_tray_def box_layout_def no_options_def new_XDraggable_def init_def
      initDragPoolInfo_def initChildren_def initDragHandleElement_def updateElementInfo_def Let_def)

lemma trays_snoc: "trays (regs @ [kb]) = construct_tray kb (trays regs)"
  by (simp add: trays_def)

lemma pool_assign_keys:
  "map fst (pool_assign k v ps) =
    (if k = ''__proto__'' \<or> k \<in> set (map fst ps) then map fst ps else map fst ps @ [k])"
  by (auto simp add: pool_assign_def)

lemma construct_tray_keys:
  "pool_keys (construct_tray (k, b) env) =
    (if k = '''' \<or> k = ''__proto__'' \<or> k \<in> set (pool_keys env) then pool_keys env
     else pool_keys env @ [k])"
  unfolding pool_keys_def construct_tray_pools by (simp add: pool_assign_keys)

lemma trays_keys_set:
  "set (pool_keys (trays regs)) = {k \<in> fst ` set regs. k \<noteq> '''' \<and> k \<noteq> ''__proto__''}"
proof (induction regs rule: rev_induct)
  case Nil
  show ?case by (simp add: trays_def pool_keys_def blank_page_def)
next
  case (snoc kb regs)
  obtain k b where kb: "kb = (k, b)" by (cases kb)
  show ?case unfolding trays_snoc kb construct_tray_keys using snoc by auto
qed

lemma first_pos_snoc:
  "k \<in> fst ` set regs \<Longrightarrow> first_pos k (regs @ [kb]) = first_pos k regs"
  unfolding first_pos_def by (induction regs) auto

lemma first_pos_less: "k \<in> fst ` set regs \<Longrightarrow> first_pos k regs < length regs"
  unfolding first_pos_def by (induction regs) auto

lemma first_pos_new:
  "k \<notin> fst ` set regs \<Longrightarrow> first_pos k (regs @ [(k, b)]) = length regs"
  unfolding first_pos_def by (induction regs) auto

lemma trays_key_order:
  "pool_keys (trays regs) = pre @ a # post \<Longrightarrow> b \<in> set pre \<Longrightarrow>
   first_pos b regs < first_pos a regs"
proof (induction regs arbitrary: pre a post rule: rev_induct)
  case Nil
  then show ?case by (simp add: trays_def pool_keys_def blank_page_def)
next
  case (snoc kb regs)
  obtain k bx where kb: "kb = (k, bx)" by (cases kb)
  let ?ks = "pool_keys (trays regs)"
  have old: "first_pos b (regs @ [kb]) < first_pos a (regs @ [kb])"
    if "?ks = pre @ a # post'" for post'
  proof -
    from that snoc.prems(2) have "a \<in> set ?ks" "b \<in> set ?ks" by auto
    then have "a \<in> fst ` set regs" "b \<in> fst ` set regs" by (auto simp add: trays_keys_set)
    then show ?thesis using snoc.IH [OF that snoc.prems(2)] by (simp add: first_pos_snoc)
  qed
  show ?case
  proof (cases "k = '''' \<or> k = ''__proto__'' \<or> k \<in> set ?ks")
    case True
    with snoc.prems(1) have "?ks = pre @ a # post"
      by (simp add: trays_snoc kb construct_tray_keys)
    then show ?thesis by (rule old)
  next
    case False
    with snoc.prems(1) have eq: "?ks @ [k] = pre @ a # post"
      by (simp add: trays_snoc kb construct_tray_keys)
    show ?thesis
    proof (cases post rule: rev_cases)
      case Nil
      with eq have a: "a = k" and pre: "pre = ?ks" by auto
      from False have "k \<notin> fst ` set regs" using trays_keys_set [of regs] by auto
      then have "first_pos a (regs @ [kb]) = length regs" by (simp add: a kb first_pos_new)
      moreover from pre snoc.prems(2) have "b \<in> fst ` set regs"
        by (auto simp add: trays_keys_set)
      then have "first_pos b (regs @ [kb]) < length regs"
        by (simp add: first_pos_snoc first_pos_less)
      ultimately show ?thesis by simp
    next
      case (snoc post' x)
      with eq have "?ks = pre @ a # post'" by auto
      then show ?thesis by (rule old)
    qed
  qed
qed

lemma checkPoolsLoop_none:
  "\<forall>k\<in>set ks. \<forall>r. map_of ps k = Some r \<longrightarrow> \<not> coincide r i \<Longrightarrow> checkPoolsLoop ps i ks = ''''"
  by (induction ks) (auto split: option.splits)

lemma checkPoolsLoop_first:
  "map_of ps a = Some r \<Longrightarrow> coincide r i \<Longrightarrow>
   \<forall>k\<in>set pre. \<forall>r'. map_of ps k = Some r' \<longrightarrow> \<not> coincide r' i \<Longrightarrow>
   checkPoolsLoop ps i (pre @ a # post) = a"
  by (induction pre) (auto split: option.splits)

lemma for_in_keys_set: "set (for_in_keys ps) = fst ` set ps"
  by (auto simp add: for_in_keys_def)

lemma for_in_keys_plain:
  "\<forall>k\<in>fst ` set ps. \<not> is_array_index k \<Longrightarrow> for_in_keys ps = map fst ps"
proof -
  assume a: "\<forall>k\<in>fst ` set ps. \<not> is_array_index k"
  then have "filter is_array_index (map fst ps) = []" by (auto simp add: filter_empty_conv)
  moreover from a have "filter (\<lambda>k. \<not> is_array_index k) (map fst ps) = map fst ps"
    by (auto simp add: filter_id_conv)
  ultimately show ?thesis by (simp add: for_in_keys_def)
qed

lemma idx1: "is_array_index ''1''" "is_array_index ''2''" "\<not> is_array_index ''trayA''"  "\<not> is_array_index ''trayB''"
  by (simp_all add: is_array_index_def is_digit_def index_value_def)

lemma numbered_pools:
  "draggablePools (trays numbered_trays) =
    [(''2'', \<lparr> top' = 0, left = 0, width = 100, height = 100, el = None \<rparr>),
     (''1'', \<lparr> top' = 50, left = 50, width = 100, height = 100, el = None \<rparr>)]"
  by (simp add: trays_def numbered_trays_def construct_tray_pools pool_assign_def box_def blank_page_def)

lemma named_pools:
  "draggablePools (trays named_trays) =
    [(''trayA'', \<lparr> top' = 0, left = 0, width = 100, height = 100, el = None \<rparr>),
     (''trayB'', \<lparr> top' = 50, left = 50, width = 100, height = 100, el = None \<rparr>)]"
  by (simp add: trays_def named_trays_def construct_tray_pools pool_assign_def box_def blank_page_def)

section \<open>The table built from the children\<close>

lemma build_upto:
  assumes "m \<le> length cs"
  shows "foldl (\<lambda>t i. t (order (cs ! i) \<mapsto> childInfo lay i)) Map.empty [0 ..< m] k = Some p \<Longrightarrow>
         \<exists>a<m. p = childInfo lay a \<and> order (cs ! a) = k"
  using assms by (induction m arbitrary: p) (auto split: if_splits simp add: less_Suc_eq)

lemma build_dom_upto:
  "(foldl (\<lambda>t i. t (order (cs ! i) \<mapsto> childInfo lay i)) Map.empty [0 ..< m] k \<noteq> None) =
     (\<exists>a<m. order (cs ! a) = k)"
  by (induction m) (auto simp add: less_Suc_eq)

lemma build_distinct_upto:
  assumes "distinct (map order cs)" "m \<le> length cs" "a < m"
  shows "foldl (\<lambda>t i. t (order (cs ! i) \<mapsto> childInfo lay i)) Map.empty [0 ..< m] (order (cs ! a)) =
           Some (childInfo lay a)"
  using assms
proof (induction m)
  case 0
  then show ?case by simp
next
  case (Suc m)
  show ?case
  proof (cases "a = m")
    case True
    then show ?thesis by simp
  next
    case False
    with Suc.prems have am: "a < m" "m < length cs" by simp_all
    with Suc.prems(1) have "order (cs ! a) \<noteq> order (cs ! m)"
      by (simp add: distinct_conv_nth)
    with Suc am show ?thesis by simp
  qed
qed

lemma build_entry:
  "buildChildrenInfos lay cs k = Some p \<Longrightarrow>
   \<exists>a<length cs. p = childInfo lay a \<and> order (cs ! a) = k"
  unfolding buildChildrenInfos_def using build_upto [of "length cs" cs] by simp

lemma build_dom: "dom (buildChildrenInfos lay cs) = set (map order cs)"
proof -
  have "(k \<in> set (map order cs)) = (\<exists>a<length cs. order (cs ! a) = k)" for k
    by (auto simp del: set_map simp add: in_set_conv_nth)
  then have "(k \<in> dom (buildChildrenInfos lay cs)) = (k \<in> set (map order cs))" for k
    unfolding buildChildrenInfos_def dom_def using build_dom_upto [of cs lay "length cs" k]
    by simp
  then show ?thesis by blast
qed

lemma build_distinct:
  "distinct (map order cs) \<Longrightarrow> a < length cs \<Longrightarrow>
   buildChildrenInfos lay cs (order (cs ! a)) = Some (childInfo lay a)"
  unfolding buildChildrenInfos_def using build_distinct_upto [of cs "length cs" a] by simp

lemma table_ok_build:
  "childrenInfos s = buildChildrenInfos lay (children s) \<Longrightarrow> table_ok s"
  unfolding table_ok_def by (auto dest!: build_entry simp add: childInfo_def)

lemma table_ok_entry:
  "table_ok s \<Longrightarrow> childrenInfos s k = Some p \<Longrightarrow>
   \<exists>a. el p = Some a \<and> a < length (children s) \<and> order (children s ! a) = k"
  by (simp add: table_ok_def)

section \<open>The reorder function\<close>

lemma sortIndex_cases:
  "sortIndex i s = - 1 \<or>
   (sortIndex i s = dragIndex s - 1 \<or> sortIndex i s = dragIndex s + 1) \<and>
   childrenInfos s (Some (sortIndex i s)) \<noteq> None"
  by (auto simp add: sortIndex_def Let_def split: option.splits)

lemma checkChildrenSort_noop:
  "sortIndex i s < 0 \<or> childrenInfos s (Some (dragIndex s)) = None \<Longrightarrow>
   checkChildrenSort lay i s = Inr s"
  by (auto simp add: checkChildrenSort_def Let_def)

lemma checkChildrenSort_empty:
  "childrenInfos s = Map.empty \<Longrightarrow> checkChildrenSort lay i s = Inr s"
  by (rule checkChildrenSort_noop) simp

lemma checkChildrenSort_swap:
  assumes "0 \<le> sortIndex i s"
    and "childrenInfos s (Some (dragIndex s)) = Some pd" and "el pd = Some a"
    and "childrenInfos s (Some (sortIndex i s)) = Some pi" and "el pi = Some b"
    and "a \<noteq> b" and "a < length (children s)"
  shows "checkChildrenSort lay i s = Inr (swapOrders lay a b (sortIndex i s) s)"
  using assms
  by (simp add: checkChildrenSort_def Let_def setOrder_def updateChildrenInfo_def swapOrders_def)

lemma swap_orders_mset:
  assumes "a < length cs" "b < length cs" "a \<noteq> b"
    and "order (cs ! a) = Some d" "order (cs ! b) = Some index"
  shows "mset (map order (cs [a := (cs ! a) \<lparr> order := Some index \<rparr>,
                              b := (cs ! b) \<lparr> order := Some d \<rparr>])) = mset (map order cs)"
proof -
  let ?os = "map order cs"
  have "map order (cs [a := (cs ! a) \<lparr> order := Some index \<rparr>, b := (cs ! b) \<lparr> order := Some d \<rparr>])
          = ?os [a := ?os ! b, b := ?os ! a]"
    using assms by (simp add: map_update)
  moreover have "mset (?os [a := ?os ! b, b := ?os ! a]) = mset ?os"
    by (rule mset_swap) (simp_all only: length_map assms(1,2))
  ultimately show ?thesis by (simp only:)
qed

text \<open>What the reorder function does to a state whose table refers to the children.\<close>

lemma checkChildrenSort_table_ok:
  assumes "table_ok s"
  shows "checkChildrenSort lay i s = Inr s \<or>
         (\<exists>a b. a < length (children s) \<and> b < length (children s) \<and> a \<noteq> b \<and>
            0 \<le> sortIndex i s \<and> childrenInfos s (Some (dragIndex s)) \<noteq> None \<and>
            order (children s ! a) = Some (dragIndex s) \<and>
            order (children s ! b) = Some (sortIndex i s) \<and>
            checkChildrenSort lay i s = Inr (swapOrders lay a b (sortIndex i s) s))"
proof (cases "sortIndex i s < 0 \<or> childrenInfos s (Some (dragIndex s)) = None")
  case True
  then show ?thesis by (simp add: checkChildrenSort_noop)
next
  case False
  then obtain pd where pd: "childrenInfos s (Some (dragIndex s)) = Some pd"
    and ge: "0 \<le> sortIndex i s" by auto
  from ge sortIndex_cases [of i s]
  obtain pi where pi: "childrenInfos s (Some (sortIndex i s)) = Some pi"
    and ne: "sortIndex i s \<noteq> dragIndex s" by auto
  from table_ok_entry [OF assms pd] obtain a where
    a: "el pd = Some a" "a < length (children s)" "order (children s ! a) = Some (dragIndex s)"
    by blast
  from table_ok_entry [OF assms pi] obtain b where
    b: "el pi = Some b" "b < length (children s)" "order (children s ! b) = Some (sortIndex i s)"
    by blast
  from a(3) b(3) ne have "a \<noteq> b" by auto
  with checkChildrenSort_swap [OF ge pd a(1) pi b(1) _ a(2)] a b ge pd show ?thesis by auto
qed

lemma swapOrders_fields:
  "options (swapOrders lay a b index s) = options s"
  "draggablePools (swapOrders lay a b index s) = draggablePools s"
  "current (swapOrders lay a b index s) = current s"
  "body (swapOrders lay a b index s) = body s"
  "mask_display (swapOrders lay a b index s) = mask_display s"
  "isResize (swapOrders lay a b index s) = isResize s"
  "drag_calls (swapOrders lay a b index s) = drag_calls s"
  "eventFns_drag (swapOrders lay a b index s) = eventFns_drag s"
  "localStorage (swapOrders lay a b index s) = localStorage s"
  "length (children (swapOrders lay a b index s)) = length (children s)"
  "dragIndex (swapOrders lay a b index s) = index"
  by (simp_all add: swapOrders_def Let_def)

lemma swapOrders_table_ok: "table_ok (swapOrders lay a b index s)"
  by (rule table_ok_build) (simp add: swapOrders_def Let_def)

lemma swapOrders_sortable:
  assumes "sortable n s" "a < length (children s)" "b < length (children s)" "a \<noteq> b"
    and "order (children s ! a) = Some (dragIndex s)" "order (children s ! b) = Some index"
  shows "sortable n (swapOrders lay a b index s)"
proof -
  let ?s' = "swapOrders lay a b index s"
  have m: "mset (map order (children ?s')) = mset (map order (children s))"
    using swap_orders_mset [OF assms(2,3,4,5,6)] by (simp add: swapOrders_def Let_def)
  then have st: "set (map order (children ?s')) = set (map order (children s))"
    by (rule mset_eq_setD)
  from m have di: "distinct (map order (children ?s')) = distinct (map order (children s))"
    by (rule mset_eq_imp_distinct_iff)
  have dom: "dom (childrenInfos ?s') = set (map order (children ?s'))"
    by (simp add: swapOrders_def Let_def build_dom)
  have h: "handle_orders ?s' = handle_orders s"
    by (simp add: handle_orders_def swapOrders_def Let_def)
  from assms(1) st di dom h swapOrders_table_ok [of lay a b index s] show ?thesis
    unfolding sortable_def by auto
qed

section \<open>The handlers, event by event\<close>

lemma same_sort_refl: "same_sort s s"
  by (simp add: same_sort_def)

lemma same_sort_props:
  assumes "same_sort s s1"
  shows "table_ok s1 = table_ok s" "sortable n s1 = sortable n s"
  using assms by (simp_all add: same_sort_def table_ok_def sortable_def handle_orders_def)

lemma handleResize_same_sort: "same_sort s (handleResize lay e s)"
  by (simp add: same_sort_def handleResize_def computeElementSize_def setElementSize_def
      updateElementInfo_def Let_def)

lemma handleResize_drag_ok: "isResize s \<Longrightarrow> drag_ok (handleResize lay e s)"
  by (simp add: drag_ok_def handleResize_def computeElementSize_def setElementSize_def
      updateElementInfo_def Let_def)

lemma startDrag_fields:
  "children (startDrag lay e s) = children s"
  "childrenInfos (startDrag lay e s) = childrenInfos s"
  "options (startDrag lay e s) = options s"
  "draggablePools (startDrag lay e s) = draggablePools s"
  "current (startDrag lay e s) = Some (CloneNode (next_clone s))"
  "body (startDrag lay e s) = body s @ [CloneNode (next_clone s)]"
  "mask_display (startDrag lay e s)"
  "isResize (startDrag lay e s) = isResize s"
  "drag_calls (startDrag lay e s) = drag_calls s"
  "eventFns_drag (startDrag lay e s) = eventFns_drag s"
  "localStorage (startDrag lay e s) = localStorage s"
  by (simp_all add: startDrag_def updateElementInfo_def Let_def)

lemma reanderCurrentStyle_Some:
  "current s = Some c \<Longrightarrow> reanderCurrentStyle pos s = Inr (moved pos c s)"
  by (simp add: reanderCurrentStyle_def moved_def)

lemma moved_fields:
  "children (moved pos c s) = children s"
  "childrenInfos (moved pos c s) = childrenInfos s"
  "options (moved pos c s) = options s"
  "draggablePools (moved pos c s) = draggablePools s"
  "current (moved pos c s) = current s"
  "body (moved pos c s) = body s"
  "mask_display (moved pos c s) = mask_display s"
  "isResize (moved pos c s) = isResize s"
  "drag_calls (moved pos c s) = drag_calls s"
  "eventFns_drag (moved pos c s) = eventFns_drag s"
  "localStorage (moved pos c s) = localStorage s"
  "dragIndex (moved pos c s) = dragIndex s"
  by (simp_all add: moved_def)

lemma dropCheck_fields:
  "children (dropCheck e s) = children s"
  "childrenInfos (dropCheck e s) = childrenInfos s"
  "options (dropCheck e s) = options s"
  "draggablePools (dropCheck e s) = draggablePools s"
  "current (dropCheck e s) = current s"
  "body (dropCheck e s) = body s"
  "mask_display (dropCheck e s) = mask_display s"
  "isResize (dropCheck e s) = isResize s"
  "eventFns_drag (dropCheck e s) = eventFns_drag s"
  "localStorage (dropCheck e s) = localStorage s"
  "dragIndex (dropCheck e s) = dragIndex s"
  by (simp_all add: dropCheck_def Let_def)

lemma handleDraggable_mousedown:
  "type' e = Mousedown \<Longrightarrow>
   handleDraggable lay invoke e s =
     Inr (moved (computeElementPosition e (startDrag lay e s)) (CloneNode (next_clone s))
            (startDrag lay e s))"
  by (simp add: handleDraggable_def Let_def reanderCurrentStyle_Some [OF startDrag_fields(5)])

lemma handleDraggable_mousemove:
  assumes "type' e = Mousemove" "current s = Some c"
  shows "handleDraggable lay invoke e s =
           checkChildrenSort_debounced invoke lay
             \<lparr> top' = fst (computeElementPosition e s), left = snd (computeElementPosition e s),
               width = 0, height = 0, el = None \<rparr>
             (moved (computeElementPosition e s) c s)"
  using assms by (simp add: handleDraggable_def Let_def reanderCurrentStyle_Some)

lemma handleDraggable_mouseup:
  assumes "type' e = Mouseup" "current s = Some c" "c \<in> set (body s)"
  shows "handleDraggable lay invoke e s =
           Inr ((dropCheck e ((moved (computeElementPosition e s) c s)
                                \<lparr> mask_display := False, mask_className := DNone \<rparr>))
                  \<lparr> body := remove1 c (body s) \<rparr>)"
  using assms
  by (simp add: handleDraggable_def Let_def reanderCurrentStyle_Some removeChild_def
      dropCheck_fields moved_fields)

text \<open>Every event either changes nothing of the children and the table, or ends with a run
  of the reorder function.\<close>

lemma dispatch_shape:
  assumes "drag_ok s"
  shows "\<exists>s1. same_sort s s1 \<and> drag_ok s1 \<and>
           (dispatch ev s = Inr s1 \<or> (\<exists>lay i. dispatch ev s = checkChildrenSort lay i s1))"
proof (cases ev)
  case (ElMousedown lay e)
  show ?thesis
  proof (cases "mask_display s \<or> type' e \<noteq> Mousedown")
    case True
    with ElMousedown have "dispatch ev s = Inr s" by (simp add: dispatch_def)
    with assms same_sort_refl show ?thesis by blast
  next
    case False
    show ?thesis
    proof (cases "isResize s")
      case True
      with False ElMousedown have "dispatch ev s = Inr (handleResize lay e s)"
        by (simp add: dispatch_def handleUserMove_def)
      with True handleResize_same_sort handleResize_drag_ok show ?thesis by blast
    next
      case nr: False
      let ?s1 = "moved (computeElementPosition e (startDrag lay e s)) (CloneNode (next_clone s))
                   (startDrag lay e s)"
      from False nr ElMousedown have "dispatch ev s = Inr ?s1"
        by (simp add: dispatch_def handleUserMove_def handleDraggable_mousedown)
      moreover have "same_sort s ?s1"
        by (simp add: same_sort_def startDrag_fields moved_fields)
      moreover have "drag_ok ?s1"
        by (simp add: drag_ok_def startDrag_fields moved_fields)
      ultimately show ?thesis by blast
    qed
  qed
next
  case (HandleMousedown lay e)
  show ?thesis
  proof (cases "mask_display s \<or> type' e \<noteq> Mousedown \<or> direction (options s) = DNone")
    case True
    with HandleMousedown have "dispatch ev s = Inr s" by (auto simp add: dispatch_def)
    with assms same_sort_refl show ?thesis by blast
  next
    case False
    with HandleMousedown
    have "dispatch ev s = Inr (handleResize lay e (s \<lparr> isResize := True \<rparr>))"
      by (simp add: dispatch_def handleUserMove_def)
    moreover have "same_sort s (handleResize lay e (s \<lparr> isResize := True \<rparr>))"
      using handleResize_same_sort [of "s \<lparr> isResize := True \<rparr>" lay e]
      by (simp add: same_sort_def)
    moreover have "drag_ok (handleResize lay e (s \<lparr> isResize := True \<rparr>))"
      by (rule handleResize_drag_ok) simp
    ultimately show ?thesis by blast
  qed
next
  case (MaskEvent lay invoke e)
  show ?thesis
  proof (cases "\<not> mask_display s \<or> type' e = Mousedown")
    case True
    with MaskEvent have "dispatch ev s = Inr s" by (auto simp add: dispatch_def)
    with assms same_sort_refl show ?thesis by blast
  next
    case False
    show ?thesis
    proof (cases "isResize s")
      case True
      with False MaskEvent have "dispatch ev s = Inr (handleResize lay e s)"
        by (simp add: dispatch_def handleUserMove_def)
      with True handleResize_same_sort handleResize_drag_ok show ?thesis by blast
    next
      case nr: False
      with False assms obtain c where c: "current s = Some c" "c \<in> set (body s)"
        by (auto simp add: drag_ok_def)
      from False nr MaskEvent have d: "dispatch ev s = handleDraggable lay invoke e s"
        by (simp add: dispatch_def handleUserMove_def)
      let ?pos = "computeElementPosition e s"
      from False consider "type' e = Mousemove" | "type' e = Mouseup"
        by (cases "type' e") auto
      then show ?thesis
      proof cases
        case 1
        let ?s1 = "moved ?pos c s"
        have ss: "same_sort s ?s1" by (simp add: same_sort_def moved_fields)
        have ok: "drag_ok ?s1" using assms by (simp add: drag_ok_def moved_fields)
        from d handleDraggable_mousemove [OF 1 c(1), of lay invoke]
        have "dispatch ev s = Inr ?s1 \<or>
            dispatch ev s = checkChildrenSort lay
              \<lparr> top' = fst ?pos, left = snd ?pos, width = 0, height = 0, el = None \<rparr> ?s1"
          by (simp add: checkChildrenSort_debounced_def)
        with ss ok show ?thesis by blast
      next
        case 2
        let ?s1 = "(dropCheck e ((moved ?pos c s) \<lparr> mask_display := False, mask_className := DNone \<rparr>))
                     \<lparr> body := remove1 c (body s) \<rparr>"
        have "same_sort s ?s1" by (simp add: same_sort_def dropCheck_fields moved_fields)
        moreover have "drag_ok ?s1" by (simp add: drag_ok_def dropCheck_fields)
        moreover have "dispatch ev s = Inr ?s1"
          using d handleDraggable_mouseup [OF 2 c, of lay invoke] by simp
        ultimately show ?thesis by blast
      qed
    qed
  qed
next
  case (Trailing lay i)
  then have "dispatch ev s = checkChildrenSort lay i s" by (simp add: dispatch_def)
  with assms same_sort_refl show ?thesis by blast
next
  case On_drag
  then have "dispatch ev s = Inr (s \<lparr> eventFns_drag := True \<rparr>)" by (simp add: dispatch_def)
  moreover have "same_sort s (s \<lparr> eventFns_drag := True \<rparr>)" by (simp add: same_sort_def)
  moreover have "drag_ok (s \<lparr> eventFns_drag := True \<rparr>)" using assms by (simp add: drag_ok_def)
  ultimately show ?thesis by blast
qed

text \<open>One event: no exception, and what it keeps.\<close>

lemma dispatch_inv:
  assumes "table_ok s" "drag_ok s"
  shows "\<exists>s'. dispatch ev s = Inr s' \<and> table_ok s' \<and> drag_ok s' \<and> options s' = options s \<and>
           draggablePools s' = draggablePools s \<and>
           length (children s') = length (children s) \<and>
           (childrenInfos s = Map.empty \<longrightarrow>
              childrenInfos s' = Map.empty \<and> children s' = children s) \<and>
           (sortable n s \<longrightarrow> sortable n s')"
proof -
  from dispatch_shape [OF assms(2), of ev] obtain s1 where
    ss: "same_sort s s1" and ok: "drag_ok s1" and
    d: "dispatch ev s = Inr s1 \<or> (\<exists>lay i. dispatch ev s = checkChildrenSort lay i s1)"
    by blast
  from ss assms(1) have t1: "table_ok s1" by (simp add: same_sort_props)
  have good: "table_ok s1 \<and> drag_ok s1 \<and> options s1 = options s \<and>
           draggablePools s1 = draggablePools s \<and>
           length (children s1) = length (children s) \<and>
           (childrenInfos s = Map.empty \<longrightarrow>
              childrenInfos s1 = Map.empty \<and> children s1 = children s) \<and>
           (sortable n s \<longrightarrow> sortable n s1)"
  proof -
    from ss have "options s1 = options s" "draggablePools s1 = draggablePools s"
      "children s1 = children s" "childrenInfos s1 = childrenInfos s"
      by (simp_all add: same_sort_def)
    with t1 ok same_sort_props(2) [OF ss, of n] show ?thesis by simp
  qed
  from d show ?thesis
  proof
    assume "dispatch ev s = Inr s1"
    with good show ?thesis by blast
  next
    assume "\<exists>lay i. dispatch ev s = checkChildrenSort lay i s1"
    then obtain lay i where b: "dispatch ev s = checkChildrenSort lay i s1" by blast
    from checkChildrenSort_table_ok [OF t1, of lay i] show ?thesis
    proof
      assume "checkChildrenSort lay i s1 = Inr s1"
      with b good show ?thesis by simp
    next
      assume "\<exists>a b. a < length (children s1) \<and> b < length (children s1) \<and> a \<noteq> b \<and>
            0 \<le> sortIndex i s1 \<and> childrenInfos s1 (Some (dragIndex s1)) \<noteq> None \<and>
            order (children s1 ! a) = Some (dragIndex s1) \<and>
            order (children s1 ! b) = Some (sortIndex i s1) \<and>
            checkChildrenSort lay i s1 = Inr (swapOrders lay a b (sortIndex i s1) s1)"
      then obtain a c where ac: "a < length (children s1)" "c < length (children s1)" "a \<noteq> c"
        "order (children s1 ! a) = Some (dragIndex s1)"
        "order (children s1 ! c) = Some (sortIndex i s1)"
        and ne: "childrenInfos s1 (Some (dragIndex s1)) \<noteq> None"
        and r: "checkChildrenSort lay i s1 = Inr (swapOrders lay a c (sortIndex i s1) s1)"
        by blast
      let ?s' = "swapOrders lay a c (sortIndex i s1) s1"
      from ne have "childrenInfos s1 \<noteq> Map.empty" by auto
      with good have e: "childrenInfos s \<noteq> Map.empty" by auto
      have k: "drag_ok ?s'" using ok by (simp add: drag_ok_def swapOrders_fields)
      have "sortable n s1 \<Longrightarrow> sortable n ?s'"
        by (rule swapOrders_sortable [OF _ ac(1,2,3,4,5)])
      with good have so: "sortable n s \<longrightarrow> sortable n ?s'" by blast
      have t: "table_ok ?s'" by (rule swapOrders_table_ok)
      have f: "options ?s' = options s" "draggablePools ?s' = draggablePools s"
        "length (children ?s') = length (children s)"
        using good by (simp_all add: swapOrders_fields)
      from b r have "dispatch ev s = Inr ?s'" by simp
      with t k f e so show ?thesis by blast
    qed
  qed
qed

lemma run_inv:
  assumes "table_ok s" "drag_ok s"
  shows "\<exists>s'. run evs s = Inr s' \<and> table_ok s' \<and> drag_ok s' \<and> options s' = options s \<and>
           draggablePools s' = draggablePools s \<and>
           length (children s') = length (children s) \<and>
           (childrenInfos s = Map.empty \<longrightarrow>
              childrenInfos s' = Map.empty \<and> children s' = children s) \<and>
           (sortable n s \<longrightarrow> sortable n s')"
  using assms
proof (induction evs arbitrary: s)
  case Nil
  then show ?case by simp
next
  case (Cons ev evs)
  from dispatch_inv [OF Cons.prems, of ev n] obtain s1 where
    s1: "dispatch ev s = Inr s1" "table_ok s1" "drag_ok s1" "options s1 = options s"
    "draggablePools s1 = draggablePools s" "length (children s1) = length (children s)"
    "childrenInfos s = Map.empty \<longrightarrow> childrenInfos s1 = Map.empty \<and> children s1 = children s"
    "sortable n s \<longrightarrow> sortable n s1"
    by blast
  from Cons.IH [OF s1(2,3)] obtain s' where
    s': "run evs s1 = Inr s'" "table_ok s'" "drag_ok s'" "options s' = options s1"
    "draggablePools s' = draggablePools s1" "length (children s') = length (children s1)"
    "childrenInfos s1 = Map.empty \<longrightarrow> childrenInfos s' = Map.empty \<and> children s' = children s1"
    "sortable n s1 \<longrightarrow> sortable n s'"
    by blast
  from s1 s' show ?case by simp
qed

section \<open>The state after construction\<close>

lemma new_XDraggable_fields:
  "children (new_XDraggable opts lay env) =
     (if isChildren opts \<and> children env \<noteq> [] then numbered (children env) else children env)
     @ handle_child (direction opts)"
  "childrenInfos (new_XDraggable opts lay env) =
     (if isChildren opts \<and> isSort opts \<and> children env \<noteq> []
      then buildChildrenInfos lay (numbered (children env)) else Map.empty)"
  "direction (options (new_XDraggable opts lay env)) = direction opts"
  "isSort (options (new_XDraggable opts lay env)) = isSort opts"
  "isAllowOut (options (new_XDraggable opts lay env)) = isAllowOut opts"
  "resizeId (options (new_XDraggable opts lay env)) = resizeId opts"
  "mask_display (new_XDraggable opts lay env) = mask_display env"
  "isResize (new_XDraggable opts lay env) = False"
  "dragIndex (new_XDraggable opts lay env) = - 1"
  "current (new_XDraggable opts lay env) = None"
  "body (new_XDraggable opts lay env) = body env"
  "drag_calls (new_XDraggable opts lay env) = drag_calls env"
  "localStorage (new_XDraggable opts lay env) = localStorage env"
  by (simp_all add: new_XDraggable_def init_def initDragPoolInfo_def initChildren_def
      initDragHandleElement_def updateElementInfo_def updateChildrenInfo_def numbered_def
      handle_child_def Let_def)

lemma numbered_orders: "map order (numbered cs) = map (\<lambda>i. Some (int i)) [0 ..< length cs]"
  by (simp add: numbered_def)

lemma numbered_length: "length (numbered cs) = length cs"
  by (simp add: numbered_def)

lemma numbered_orders_set: "set (map order (numbered cs)) = Some ` {0 ..< int (length cs)}"
proof -
  have "set (map order (numbered cs)) = Some ` int ` {0 ..< length cs}"
    unfolding numbered_orders by (simp add: image_image)
  then show ?thesis by (simp add: image_int_atLeastLessThan)
qed

lemma numbered_orders_distinct: "distinct (map order (numbered cs))"
  unfolding numbered_orders by (simp add: distinct_map inj_on_def)

lemma new_XDraggable_table_ok: "table_ok (new_XDraggable opts lay env)"
proof (cases "isChildren opts \<and> isSort opts \<and> children env \<noteq> []")
  case True
  show ?thesis
    unfolding table_ok_def
  proof (intro allI impI)
    fix k p
    assume "childrenInfos (new_XDraggable opts lay env) k = Some p"
    with True have "buildChildrenInfos lay (numbered (children env)) k = Some p"
      by (simp add: new_XDraggable_fields)
    then obtain a where a: "a < length (numbered (children env))" "p = childInfo lay a"
      "order (numbered (children env) ! a) = k"
      using build_entry by blast
    with True show "\<exists>a. el p = Some a \<and> a < length (children (new_XDraggable opts lay env)) \<and>
        order (children (new_XDraggable opts lay env) ! a) = k"
      by (auto simp add: new_XDraggable_fields childInfo_def nth_append)
  qed
next
  case False
  then show ?thesis by (auto simp add: table_ok_def new_XDraggable_fields)
qed

lemma new_XDraggable_drag_ok: "\<not> mask_display env \<Longrightarrow> drag_ok (new_XDraggable opts lay env)"
  by (simp add: drag_ok_def new_XDraggable_fields)

lemma new_XDraggable_sortable:
  assumes "isChildren opts" "isSort opts"
  shows "sortable (length (children env)) (new_XDraggable opts lay env)"
proof (cases "children env = []")
  case True
  with assms new_XDraggable_table_ok [of opts lay env] show ?thesis
    by (auto simp add: sortable_def new_XDraggable_fields handle_orders_def handle_child_def)
next
  case False
  let ?s = "new_XDraggable opts lay env"
  let ?cs = "numbered (children env)"
  from False assms have c: "children ?s = ?cs @ handle_child (direction opts)"
    and t: "childrenInfos ?s = buildChildrenInfos lay ?cs"
    by (simp_all add: new_XDraggable_fields)
  have h: "set (map order (handle_child (direction opts))) = handle_orders ?s"
    by (simp add: handle_child_def handle_orders_def new_XDraggable_fields)
  have "None \<notin> set (map order ?cs)" unfolding numbered_orders_set by auto
  then have d: "distinct (map order (children ?s))"
    unfolding c using numbered_orders_distinct [of "children env"]
    by (auto simp add: handle_child_def)
  have s: "set (map order (children ?s)) = Some ` {0 ..< int (length (children env))} \<union> handle_orders ?s"
    unfolding c using numbered_orders_set [of "children env"] h by simp
  have "dom (childrenInfos ?s) = Some ` {0 ..< int (length (children env))}"
    unfolding t build_dom by (rule numbered_orders_set)
  with d s new_XDraggable_table_ok [of opts lay env] show ?thesis
    by (simp add: sortable_def)
qed

lemma new_XDraggable_unsorted:
  "\<not> (isChildren opts \<and> isSort opts) \<Longrightarrow> childrenInfos (new_XDraggable opts lay env) = Map.empty"
  by (auto simp add: new_XDraggable_fields)

lemma sortable_keys:
  assumes "sortable n s"
  shows "{k. childrenInfos s (Some k) \<noteq> None} = {0 ..< int n}"
proof -
  have "k \<in> {0 ..< int n}" if "childrenInfos s (Some k) \<noteq> None" for k
  proof -
    from that obtain p where "childrenInfos s (Some k) = Some p" by auto
    with assms obtain a where "a < length (children s)" "order (children s ! a) = Some k"
      using table_ok_entry [of s "Some k" p] by (auto simp add: sortable_def)
    then have "Some k \<in> set (map order (children s))"
      by (metis length_map nth_map nth_mem)
    with assms show ?thesis by (auto simp add: sortable_def handle_orders_def split: if_splits)
  qed
  moreover have "childrenInfos s (Some k) \<noteq> None" if "k \<in> {0 ..< int n}" for k
  proof -
    from that have "Some k \<in> Some ` {0 ..< int n}" by (rule imageI)
    with assms have "Some k \<in> dom (childrenInfos s)" unfolding sortable_def by blast
    then show ?thesis by auto
  qed
  ultimately show ?thesis by blast
qed

lemma sortable_dom:
  assumes "sortable n s" "direction (options s) = DNone"
  shows "dom (childrenInfos s) = Some ` {0 ..< int n}"
proof -
  have "k \<in> Some ` {0 ..< int n}" if "k \<in> dom (childrenInfos s)" for k
  proof -
    from that obtain p where "childrenInfos s k = Some p" by auto
    with assms obtain a where "a < length (children s)" "order (children s ! a) = k"
      using table_ok_entry [of s k p] by (auto simp add: sortable_def)
    then have "k \<in> set (map order (children s))"
      by (metis length_map nth_map nth_mem)
    with assms show ?thesis by (simp add: sortable_def handle_orders_def)
  qed
  with assms show ?thesis by (auto simp add: sortable_def)
qed

lemma sortable_reachable:
  assumes "isChildren opts" "isSort opts" "\<not> mask_display env"
  shows "sortable (length (children env)) (after evs (new_XDraggable opts lay env))"
proof -
  from run_inv [OF new_XDraggable_table_ok new_XDraggable_drag_ok [OF assms(3)],
      of evs opts lay "length (children env)"]
    new_XDraggable_sortable [OF assms(1,2), of env lay]
  obtain s where "run evs (new_XDraggable opts lay env) = Inr s" "sortable (length (children env)) s"
    by blast
  then show ?thesis by (simp add: after_def)
qed

lemmas sort_scenario_defs = list_layout_def three_children_def sort_list_def grab_container_def
  grab_first_def pull_down_def release_def handle_list_def plain_list_def

lemma sortIndex_spec:
  "sortIndex i s = (case spec_target i s of None \<Rightarrow> - 1 | Some t \<Rightarrow> t)"
  by (simp add: sortIndex_def spec_target_def Let_def)

lemma spec_target_entry:
  "spec_target i s = Some t \<Longrightarrow> childrenInfos s (Some t) \<noteq> None \<and> t \<noteq> dragIndex s"
  by (auto simp add: spec_target_def Let_def split: if_splits option.splits)

section \<open>Drag gestures\<close>













text \<open>Every state reached from a construction is one in which a drag can be followed:
  its table refers to the children, and the order values of the children are distinct
  or the table is empty.\<close>

lemma reachable_followed:
  assumes "\<not> mask_display env"
  shows "table_ok (after evs (new_XDraggable opts lay env)) \<and>
         (distinct (map order (children (after evs (new_XDraggable opts lay env)))) \<or>
          childrenInfos (after evs (new_XDraggable opts lay env)) = Map.empty)"
proof (cases "isChildren opts \<and> isSort opts")
  case True
  then have "sortable (length (children env)) (after evs (new_XDraggable opts lay env))"
    using sortable_reachable [OF _ _ assms] by blast
  then show ?thesis by (simp add: sortable_def)
next
  case False
  then have e: "childrenInfos (new_XDraggable opts lay env) = Map.empty"
    by (rule new_XDraggable_unsorted)
  from run_inv [OF new_XDraggable_table_ok new_XDraggable_drag_ok [OF assms], of evs opts lay 0] e
  obtain s' where "run evs (new_XDraggable opts lay env) = Inr s'" "table_ok s'"
    "childrenInfos s' = Map.empty"
    by auto
  then show ?thesis by (simp add: after_def)
qed

section \<open>The result of the lookup\<close>










text \<open>The registry never has an entry under the empty identifier.\<close>

lemma pool_assign_no_empty_key:
  assumes "k \<noteq> ''''" "'''' \<notin> fst ` set ps"
  shows "'''' \<notin> fst ` set (pool_assign k v ps)"
proof -
  have "set (map fst (pool_assign k v ps)) \<subseteq> insert k (set (map fst ps))"
    unfolding pool_assign_keys by auto
  with assms show ?thesis by auto
qed

lemma new_XDraggable_pool_keys:
  assumes "'''' \<notin> fst ` set (draggablePools env)"
  shows "'''' \<notin> fst ` set (draggablePools (new_XDraggable opts lay env))"
proof -
  have "draggablePools (new_XDraggable opts lay env) = draggablePools env \<or>
        (\<exists>k v. k \<noteq> '''' \<and>
           draggablePools (new_XDraggable opts lay env) = pool_assign k v (draggablePools env))"
    by (cases "dragId opts")
      (auto simp add: new_XDraggable_def init_def initDragPoolInfo_def initChildren_def
        initDragHandleElement_def updateElementInfo_def updateChildrenInfo_def Let_def)
  then show ?thesis
  proof
    assume "draggablePools (new_XDraggable opts lay env) = draggablePools env"
    with assms show ?thesis by simp
  next
    assume "\<exists>k v. k \<noteq> '''' \<and>
           draggablePools (new_XDraggable opts lay env) = pool_assign k v (draggablePools env)"
    then obtain k v where "k \<noteq> ''''"
      "draggablePools (new_XDraggable opts lay env) = pool_assign k v (draggablePools env)"
      by blast
    with pool_assign_no_empty_key [OF _ assms, of k v] show ?thesis by simp
  qed
qed

section \<open>Decimal strings\<close>

text \<open>\<open>n + ''\<close> is the decimal string of \<open>n\<close>, and no other string is.\<close>

lemma zero_char: "(of_char (CHR ''0'') :: nat) = 48"
  by simp

lemma digit_char:
  assumes "k < 10"
  shows "is_digit (char_of (48 + k))" "(of_char (char_of (48 + k)) :: nat) = 48 + k"
    "(char_of (48 + k) = CHR ''0'') = (k = 0)"
proof -
  from assms show v: "(of_char (char_of (48 + k)) :: nat) = 48 + k" by simp
  then show "is_digit (char_of (48 + k))" using assms by (simp add: is_digit_def)
  show "(char_of (48 + k) = CHR ''0'') = (k = 0)"
  proof
    assume "char_of (48 + k) = CHR ''0''"
    then have "(of_char (char_of (48 + k)) :: nat) = of_char (CHR ''0'')" by (simp only:)
    with v show "k = 0" by (simp only: zero_char)
  next
    assume "k = 0"
    have "char_of (of_char (CHR ''0'') :: nat) = CHR ''0''" by (rule char_of_char)
    with \<open>k = 0\<close> show "char_of (48 + k) = CHR ''0''" by (simp only: zero_char add_0_right)
  qed
qed

lemma digits_numeral: "spec_numeral (digits n) n"
proof (induction n rule: digits.induct)
  case (1 n)
  show ?case
  proof (cases "n < 10")
    case True
    then show ?thesis
      using digit_char [of n] by (auto simp add: digits.simps [of n] spec_numeral_def)
  next
    case False
    with 1 have ih: "spec_numeral (digits (n div 10)) (n div 10)" by simp
    have m: "n mod 10 < 10" by simp
    from False have nz: "n div 10 \<noteq> 0" by simp
    have "hd (digits (n div 10)) \<noteq> CHR ''0''"
    proof
      assume "hd (digits (n div 10)) = CHR ''0''"
      with ih have "digits (n div 10) = ''0''" by (simp add: spec_numeral_def)
      with ih have "n div 10 = 0" by (simp add: spec_numeral_def)
      with nz show False by simp
    qed
    with ih False show ?thesis
      using digit_char(1,2) [OF m]
      by (simp add: digits.simps [of n] spec_numeral_def)
  qed
qed

lemma toString_decimal: "spec_decimal (toString n) n"
  using digits_numeral [of "nat n"] digits_numeral [of "nat (- n)"]
  by (simp add: spec_decimal_def toString_def)

lemma digit_back:
  assumes "is_digit c"
  shows "(of_char c :: nat) - 48 < 10" "char_of (48 + ((of_char c :: nat) - 48)) = c"
proof -
  from assms show "(of_char c :: nat) - 48 < 10" by (auto simp add: is_digit_def)
  from assms have "48 + ((of_char c :: nat) - 48) = of_char c" by (simp add: is_digit_def)
  then show "char_of (48 + ((of_char c :: nat) - 48)) = c" by (simp only: char_of_char)
qed

lemma numeral_digits: "spec_numeral ds n \<Longrightarrow> ds = digits n"
proof (induction ds arbitrary: n rule: rev_induct)
  case Nil
  then show ?case by (simp add: spec_numeral_def)
next
  case (snoc c ds)
  let ?v = "foldl (\<lambda>a c. 10 * a + ((of_char c :: nat) - 48)) 0 ds"
  let ?d = "(of_char c :: nat) - 48"
  from snoc.prems have c: "is_digit c" and all: "list_all is_digit ds"
    and n: "n = 10 * ?v + ?d"
    and lead: "hd (ds @ [c]) = CHR ''0'' \<longrightarrow> ds @ [c] = ''0''"
    by (simp_all add: spec_numeral_def)
  note d = digit_back [OF c]
  show ?case
  proof (cases "ds = []")
    case True
    with n d have "n < 10" "char_of (48 + n) = c" by simp_all
    with True show ?thesis by (simp add: digits.simps [of n])
  next
    case False
    with lead have h: "hd ds \<noteq> CHR ''0''" by auto
    with False all have "spec_numeral ds ?v" by (simp add: spec_numeral_def)
    then have ih: "ds = digits ?v" by (rule snoc.IH)
    have "?v \<noteq> 0"
    proof
      assume "?v = 0"
      with ih have "ds = digits 0" by simp
      then have "ds = [char_of (48 + (0::nat))]" by (simp add: digits.simps [of 0])
      with h digit_char(3) [of 0] show False by simp
    qed
    with n d(1) have "\<not> n < 10" "n div 10 = ?v" "n mod 10 = ?d" by simp_all
    with ih d(2) show ?thesis by (simp add: digits.simps [of n])
  qed
qed

lemma spec_decimal_toString: "spec_decimal str n \<Longrightarrow> str = toString n"
proof (cases "n < 0")
  case True
  assume "spec_decimal str n"
  with True have s: "str \<noteq> []" "hd str = CHR ''-''" "spec_numeral (tl str) (nat (- n))"
    by (simp_all add: spec_decimal_def)
  from s(3) have "tl str = digits (nat (- n))" by (rule numeral_digits)
  with s(1,2) have "str = CHR ''-'' # digits (nat (- n))" by (cases str) simp_all
  with True show ?thesis by (simp add: toString_def)
next
  case False
  assume "spec_decimal str n"
  with False have "spec_numeral str (nat n)" by (simp add: spec_decimal_def)
  then have "str = digits (nat n)" by (rule numeral_digits)
  with False show ?thesis by (simp add: toString_def)
qed

section \<open>The invocations of the debounced check\<close>

lemma invocations_waiting:
  "invocations 200 True True (Waiting (t0 + 200) p) cs =
    (case p of
       None \<Rightarrow> []
     | Some a0 \<Rightarrow> if (case cs of [] \<Rightarrow> True | c # cs' \<Rightarrow> t0 + 200 \<le> fst c)
                  then [(t0 + 200, TrailingEdge, a0)] else [])
    @ spec_invocations (Some t0) cs"
proof (induction cs arbitrary: t0 p)
  case Nil
  then show ?case by (simp add: debounce_expire_def split: option.splits)
next
  case (Cons c cs)
  obtain t a where c: "c = (t, a)" by (cases c)
  show ?case
  proof (cases "t0 + 200 \<le> t")
    case True
    with Cons [of t None] c show ?thesis
      by (simp add: debounce_due_def debounce_expire_def debounce_call_def split: option.splits)
  next
    case False
    with Cons [of t "Some a"] c show ?thesis
      by (simp add: debounce_due_def debounce_expire_def debounce_call_def split: option.splits)
  qed
qed

lemma invocations_spec: "checkChildrenSort_invocations cs = spec_invocations None cs"
proof (cases cs)
  case Nil
  then show ?thesis
    by (simp add: checkChildrenSort_invocations_def debounce_expire_def)
next
  case (Cons c cs')
  obtain t a where c: "c = (t, a)" by (cases c)
  with Cons invocations_waiting [of t None cs'] show ?thesis
    by (simp add: checkChildrenSort_invocations_def debounce_due_def debounce_call_def)
qed

lemma spec_invocations_late:
  assumes "sorted (map fst cs)" "\<forall>c\<in>set cs. t0 \<le> fst c" "x \<in> set (spec_invocations (Some t0) cs)"
  shows "t0 + 200 \<le> fst x"
  using assms
proof (induction cs arbitrary: t0)
  case Nil
  then show ?case by simp
next
  case (Cons c cs)
  obtain t a where c: "c = (t, a)" by (cases c)
  from Cons.prems(1,2) c have s: "sorted (map fst cs)" "\<forall>c\<in>set cs. t \<le> fst c" "t0 \<le> t"
    by auto
  from Cons.prems(3) c consider
    "x = (t, LeadingEdge, a)" "t0 + 200 \<le> t" | "x = (t + 200, TrailingEdge, a)"
    | "x \<in> set (spec_invocations (Some t) cs)"
    by (auto split: if_splits)
  then show ?case
  proof cases
    case 1
    then show ?thesis by simp
  next
    case 2
    with s(3) show ?thesis by simp
  next
    case 3
    from Cons.IH [OF s(1,2) 3] s(3) show ?thesis by simp
  qed
qed

lemma spaced_Cons:
  assumes "spaced xs"
    and "\<forall>y\<in>set xs. fst x \<le> fst y \<and> (fst (snd x) = LeadingEdge \<longrightarrow> fst x + 200 \<le> fst y)"
    and "fst (snd x) = TrailingEdge \<longrightarrow> xs = [] \<or> fst (snd (hd xs)) = LeadingEdge"
  shows "spaced (x # xs)"
  using assms by (cases xs) auto

lemma spec_invocations_spaced:
  assumes "sorted (map fst cs)"
  shows "spaced (spec_invocations prev cs)"
  using assms
proof (induction cs arbitrary: prev)
  case Nil
  then show ?case by simp
next
  case (Cons c cs)
  obtain t a where c: "c = (t, a)" by (cases c)
  from Cons.prems c have s: "sorted (map fst cs)" "\<forall>c\<in>set cs. t \<le> fst c" by auto
  let ?R = "spec_invocations (Some t) cs"
  have R: "spaced ?R" using s(1) by (rule Cons.IH)
  have late: "\<forall>y\<in>set ?R. t + 200 \<le> fst y"
    using spec_invocations_late [OF s] by blast
  have lead: "spaced ((t, LeadingEdge, a) # ?R)"
    by (rule spaced_Cons [OF R]) (use late in auto)
  have trail: "spaced ((t + 200, TrailingEdge, a) # ?R)"
    if "case cs of [] \<Rightarrow> True | c # cs' \<Rightarrow> t + 200 \<le> fst c"
  proof (rule spaced_Cons [OF R])
    show "\<forall>y\<in>set ?R. fst (t + 200, TrailingEdge, a) \<le> fst y \<and>
        (fst (snd (t + 200, TrailingEdge, a)) = LeadingEdge \<longrightarrow>
           fst (t + 200, TrailingEdge, a) + 200 \<le> fst y)"
      using late by simp
    show "fst (snd (t + 200, TrailingEdge, a)) = TrailingEdge \<longrightarrow>
        ?R = [] \<or> fst (snd (hd ?R)) = LeadingEdge"
      using that by (cases cs) auto
  qed
  from c R lead trail show ?case by simp
qed

lemma spaced_nth:
  assumes "spaced xs" "Suc i < length xs"
  shows "fst (xs ! i) \<le> fst (xs ! Suc i) \<and>
         (fst (snd (xs ! i)) = LeadingEdge \<longrightarrow> fst (xs ! i) + 200 \<le> fst (xs ! Suc i)) \<and>
         (fst (snd (xs ! i)) = TrailingEdge \<longrightarrow> fst (snd (xs ! Suc i)) = LeadingEdge)"
  using assms
proof (induction xs arbitrary: i rule: spaced.induct)
  case (1 x y xs)
  show ?case
  proof (cases i)
    case 0
    with "1.prems" show ?thesis by simp
  next
    case (Suc j)
    with "1.prems" "1.IH" [of j] show ?thesis by simp
  qed
qed simp_all

lemma spaced_three:
  assumes "spaced xs" "Suc (Suc i) < length xs"
  shows "fst (xs ! i) + 200 \<le> fst (xs ! Suc (Suc i))"
proof -
  from assms have a: "Suc i < length xs" by simp
  note p = spaced_nth [OF assms(1) a] spaced_nth [OF assms(1) assms(2)]
  show ?thesis
  proof (cases "fst (snd (xs ! i))")
    case LeadingEdge
    with p show ?thesis by simp
  next
    case TrailingEdge
    with p show ?thesis by simp
  qed
qed

lemma checkChildrenSort_total:
  assumes "table_ok s"
  shows "\<exists>s'. checkChildrenSort lay i s = Inr s' \<and> table_ok s'"
  using checkChildrenSort_table_ok [OF assms, of lay i] assms swapOrders_table_ok by metis

lemma reorder_runs_total:
  assumes "table_ok s"
  shows "\<exists>s'. reorder_runs L xs s = Inr s' \<and> table_ok s'"
  using assms
proof (induction xs arbitrary: s)
  case Nil
  then show ?case by simp
next
  case (Cons x xs)
  obtain t k a where x: "x = (t, k, a)" by (cases x)
  from checkChildrenSort_total [OF Cons.prems, of "L t" a] obtain s1 where
    s1: "checkChildrenSort (L t) a s = Inr s1" "table_ok s1" by blast
  from Cons.IH [OF s1(2)] x s1(1) show ?case by simp
qed

lemma handleDraggable_submits:
  assumes "type' e = Mousemove" "current s = Some c"
  shows "handleDraggable lay invoke e s =
           checkChildrenSort_debounced invoke lay (submitted e s)
             (moved (computeElementPosition e s) c s)"
  using handleDraggable_mousemove [OF assms] by (simp add: submitted_def Let_def)

lemma submitted_grabbed:
  "submitted nudge grabbed_first = point 0 5" "submitted pull grabbed_first = point 0 40"
  by (simp_all add: submitted_def nudge_def pull_def point_def grabbed_first_def
      sort_scenario_defs scenario_defs model_defs Let_def)

lemma grabbed_first_orders: "map order (children grabbed_first) = [Some 0, Some 1, Some 2]"
  by (simp add: grabbed_first_def sort_scenario_defs scenario_defs model_defs Let_def)

lemma bursts_invocations:
  "checkChildrenSort_invocations bursts =
     [(0, LeadingEdge, point 0 5), (250, TrailingEdge, point 0 40), (260, LeadingEdge, point 0 40)]"
  "checkChildrenSort_invocations burst =
     [(0, LeadingEdge, point 0 5), (250, TrailingEdge, point 0 40)]"
  by (simp_all add: bursts_def burst_def submitted_grabbed checkChildrenSort_invocations_def
      debounce_due_def debounce_expire_def debounce_call_def)

lemma grabbed_first_table: "table_ok grabbed_first"
proof -
  let ?opts = "no_options \<lparr> isChildren := True, isSort := True \<rparr>"
  have "isChildren ?opts" "isSort ?opts" "\<not> mask_display three_children"
    by (simp_all add: no_options_def three_children_def blank_page_def)
  then have "sortable (length (children three_children)) grabbed_first"
    unfolding grabbed_first_def sort_list_def by (rule sortable_reachable)
  then show ?thesis by (simp add: sortable_def)
qed

section \<open>The clamp of the drag position\<close>

text \<open>
  Claim C1, as stated: with drag-out disallowed and children mode on, the position
  returned by \<open>computeElementPosition\<close> lies in
  \<open>[parentTop, parentTop + parentHeight - currentHeight]\<close> vertically and in
  \<open>[parentLeft, parentLeft + parentWidth - currentWidth]\<close> horizontally, for every
  pointer position.  It fails when the grabbed element is higher than the container:
  the interval is then empty.  A 20 pixel child of a 10 pixel container, grabbed at page
  position (5, 5), is placed at top -10, above the top 0 of the container.
\<close>

theorem C1_counterexample:
  "\<not> isAllowOut (options tall_child_drag) \<and> isChildren (options tall_child_drag) \<and>
   \<not> (parentTop (info tall_child_drag)
        \<le> fst (computeElementPosition (mouse Mousemove 5 5 0 0 TargetEl) tall_child_drag) \<and>
      fst (computeElementPosition (mouse Mousemove 5 5 0 0 TargetEl) tall_child_drag)
        \<le> parentTop (info tall_child_drag) + parentHeight (info tall_child_drag)
            - currentHeight (info tall_child_drag))"
  by (simp add: tall_child_drag_def tall_layout_def scenario_defs model_defs Let_def)

text \<open>
  Claim C1, amended: with drag-out disallowed and children mode on, and a grabbed
  element that is no higher and no wider than the container, the position returned by
  \<open>computeElementPosition\<close> lies in
  \<open>[parentTop, parentTop + parentHeight - currentHeight]\<close> vertically and in
  \<open>[parentLeft, parentLeft + parentWidth - currentWidth]\<close> horizontally, for every
  pointer position.
\<close>

theorem C1_clamp:
  assumes "\<not> isAllowOut (options s)" and "isChildren (options s)"
    and "currentHeight (info s) \<le> parentHeight (info s)"
    and "currentWidth (info s) \<le> parentWidth (info s)"
  shows "parentTop (info s) \<le> fst (computeElementPosition e s) \<and>
         fst (computeElementPosition e s)
           \<le> parentTop (info s) + parentHeight (info s) - currentHeight (info s) \<and>
         parentLeft (info s) \<le> snd (computeElementPosition e s) \<and>
         snd (computeElementPosition e s)
           \<le> parentLeft (info s) + parentWidth (info s) - currentWidth (info s)"
  using assms by (simp add: computeElementPosition_def Let_def)

theorem C1_clamp_witness:
  "\<not> isAllowOut (options small_child_drag) \<and> isChildren (options small_child_drag) \<and>
   currentHeight (info small_child_drag) \<le> parentHeight (info small_child_drag) \<and>
   currentWidth (info small_child_drag) \<le> parentWidth (info small_child_drag) \<and>
   parentTop (info small_child_drag) = 100 \<and>
   parentTop (info small_child_drag) + parentHeight (info small_child_drag)
     - currentHeight (info small_child_drag) = 170 \<and>
   100 \<le> fst (computeElementPosition (mouse Mousemove 500 500 0 0 TargetEl) small_child_drag) \<and>
   fst (computeElementPosition (mouse Mousemove 500 500 0 0 TargetEl) small_child_drag) \<le> 170"
proof -
  have h1: "\<not> isAllowOut (options small_child_drag)"
    and h2: "isChildren (options small_child_drag)"
    and h3: "currentHeight (info small_child_drag) \<le> parentHeight (info small_child_drag)"
    and h4: "currentWidth (info small_child_drag) \<le> parentWidth (info small_child_drag)"
    and h5: "parentTop (info small_child_drag) = 100"
    and h6: "parentTop (info small_child_drag) + parentHeight (info small_child_drag)
             - currentHeight (info small_child_drag) = 170"
    by (simp_all add: small_child_drag_def tray_layout_def scenario_defs model_defs Let_def)
  from C1_clamp [OF h1 h2 h3 h4, of "mouse Mousemove 500 500 0 0 TargetEl"] h1 h2 h3 h4 h5 h6
  show ?thesis by simp
qed

section \<open>Lookup in the registry\<close>

text \<open>
  Claim C2, as stated: when two overlapping registered rectangles both contain the
  point, \<open>checkPoolsCoincide\<close> returns the identifier registered first.  It fails for
  identifiers that are array indices: \<open>for ... in\<close> visits those in ascending numeric
  order, whatever the order of registration.  Tray \<open>2\<close> is registered first, tray \<open>1\<close>
  second, both contain the point (60, 60), and the lookup returns \<open>1\<close>.
\<close>

theorem C2_counterexample:
  "map_of (draggablePools (trays numbered_trays)) ''2'' =
     Some \<lparr> top' = 0, left = 0, width = 100, height = 100, el = None \<rparr> \<and>
   coincide \<lparr> top' = 0, left = 0, width = 100, height = 100, el = None \<rparr> (point 60 60) \<and>
   map_of (draggablePools (trays numbered_trays)) ''1'' =
     Some \<lparr> top' = 50, left = 50, width = 100, height = 100, el = None \<rparr> \<and>
   coincide \<lparr> top' = 50, left = 50, width = 100, height = 100, el = None \<rparr> (point 60 60) \<and>
   first_pos ''2'' numbered_trays < first_pos ''1'' numbered_trays \<and>
   checkPoolsCoincide (point 60 60) (trays numbered_trays) = ''1''"
proof -
  have "first_pos ''2'' numbered_trays < first_pos ''1'' numbered_trays"
    by (simp add: first_pos_def numbered_trays_def)
  then show ?thesis
    by (simp add: numbered_pools checkPoolsCoincide_def for_in_keys_def idx1 coincide_def
        point_def index_value_def)
qed

text \<open>
  Claim C2, amended: for every registry built by constructing containers and every
  query point, \<open>checkPoolsCoincide\<close> returns the identifier of the registry entry whose
  rectangle strictly contains the point when exactly one does; returns the empty string
  when none does; and, when no registered identifier is an array index (a canonical
  decimal string of an integer below 4294967295), returns among the entries whose
  rectangles contain the point the identifier that was registered first.  The registry
  has an entry for every identifier that a container registered, but for \<open>__proto__\<close>
  (and the empty identifier, which \<open>initDragPoolInfo\<close> refuses).
\<close>

theorem C2_registry_lookup:
  "(map_of (draggablePools (trays regs)) a = Some r \<and> coincide r i \<and>
    (\<forall>b r'. map_of (draggablePools (trays regs)) b = Some r' \<and> coincide r' i \<longrightarrow> b = a)
    \<longrightarrow> checkPoolsCoincide i (trays regs) = a) \<and>
   ((\<forall>b r'. map_of (draggablePools (trays regs)) b = Some r' \<longrightarrow> \<not> coincide r' i)
    \<longrightarrow> checkPoolsCoincide i (trays regs) = '''') \<and>
   ((\<forall>k\<in>fst ` set regs. \<not> is_array_index k) \<and>
    map_of (draggablePools (trays regs)) a = Some r \<and> coincide r i \<and>
    (\<forall>b r'. map_of (draggablePools (trays regs)) b = Some r' \<and> coincide r' i \<and> b \<noteq> a
            \<longrightarrow> first_pos a regs < first_pos b regs)
    \<longrightarrow> checkPoolsCoincide i (trays regs) = a) \<and>
   fst ` set (draggablePools (trays regs)) =
     {k \<in> fst ` set regs. k \<noteq> '''' \<and> k \<noteq> ''__proto__''}"
proof (intro conjI impI)
  let ?ps = "draggablePools (trays regs)"
  assume h: "map_of ?ps a = Some r \<and> coincide r i \<and>
             (\<forall>b r'. map_of ?ps b = Some r' \<and> coincide r' i \<longrightarrow> b = a)"
  then have "a \<in> set (for_in_keys ?ps)"
    by (auto simp add: for_in_keys_set dest: map_of_SomeD intro: rev_image_eqI)
  then obtain pre post where sp: "for_in_keys ?ps = pre @ a # post" "a \<notin> set pre"
    using split_list_first [of a "for_in_keys ?ps"] by blast
  with h have "\<forall>k\<in>set pre. \<forall>r'. map_of ?ps k = Some r' \<longrightarrow> \<not> coincide r' i" by blast
  with h sp show "checkPoolsCoincide i (trays regs) = a"
    by (simp add: checkPoolsCoincide_def checkPoolsLoop_first)
next
  assume "\<forall>b r'. map_of (draggablePools (trays regs)) b = Some r' \<longrightarrow> \<not> coincide r' i"
  then show "checkPoolsCoincide i (trays regs) = ''''"
    by (simp add: checkPoolsCoincide_def checkPoolsLoop_none)
next
  let ?ps = "draggablePools (trays regs)"
  assume h: "(\<forall>k\<in>fst ` set regs. \<not> is_array_index k) \<and>
          map_of ?ps a = Some r \<and> coincide r i \<and>
          (\<forall>b r'. map_of ?ps b = Some r' \<and> coincide r' i \<and> b \<noteq> a
                  \<longrightarrow> first_pos a regs < first_pos b regs)"
  have keys: "set (map fst ?ps) \<subseteq> fst ` set regs"
    using trays_keys_set [of regs] by (auto simp add: pool_keys_def)
  with h have "\<forall>k\<in>fst ` set ?ps. \<not> is_array_index k"
    by (metis list.set_map subsetD)
  then have plain: "for_in_keys ?ps = map fst ?ps"
    by (rule for_in_keys_plain)
  from h have "a \<in> set (map fst ?ps)"
    by (auto dest: map_of_SomeD intro: rev_image_eqI)
  then obtain pre post where sp: "map fst ?ps = pre @ a # post" "a \<notin> set pre"
    using split_list_first [of a "map fst ?ps"] by blast
  have "\<not> coincide r' i" if "k \<in> set pre" "map_of ?ps k = Some r'" for k r'
  proof
    assume c: "coincide r' i"
    from that sp have "k \<noteq> a" by auto
    with h that c have "first_pos a regs < first_pos k regs" by blast
    moreover have "first_pos k regs < first_pos a regs"
      using trays_key_order [of regs pre a post k] sp(1) that(1)
      by (simp add: pool_keys_def)
    ultimately show False by simp
  qed
  with h sp plain show "checkPoolsCoincide i (trays regs) = a"
    by (simp add: checkPoolsCoincide_def checkPoolsLoop_first)
next
  show "fst ` set (draggablePools (trays regs)) =
          {k \<in> fst ` set regs. k \<noteq> '''' \<and> k \<noteq> ''__proto__''}"
    using trays_keys_set [of regs] by (simp add: pool_keys_def)
qed

theorem C2_registry_lookup_witness:
  "\<not> is_array_index ''trayA'' \<and> \<not> is_array_index ''trayB'' \<and>
   first_pos ''trayA'' named_trays < first_pos ''trayB'' named_trays \<and>
   coincide \<lparr> top' = 0, left = 0, width = 100, height = 100, el = None \<rparr> (point 60 60) \<and>
   coincide \<lparr> top' = 50, left = 50, width = 100, height = 100, el = None \<rparr> (point 60 60) \<and>
   checkPoolsCoincide (point 60 60) (trays named_trays) = ''trayA'' \<and>
   checkPoolsCoincide (point 10 10) (trays named_trays) = ''trayA'' \<and>
   checkPoolsCoincide (point 500 500) (trays named_trays) = ''''"
proof -
  let ?s = "trays named_trays"
  let ?rA = "\<lparr> top' = 0, left = 0, width = 100, height = 100, el = None \<rparr>"
  note lookup = C2_registry_lookup [of named_trays]
  have plain: "\<forall>k\<in>fst ` set named_trays. \<not> is_array_index k"
    by (simp add: named_trays_def idx1)
  have fp: "first_pos ''trayA'' named_trays < first_pos ''trayB'' named_trays"
    by (simp add: first_pos_def named_trays_def)
  have A: "map_of (draggablePools ?s) ''trayA'' = Some ?rA"
    by (simp add: named_pools)
  have c1: "coincide ?rA (point 60 60)" "coincide ?rA (point 10 10)"
    and c2: "coincide \<lparr> top' = 50, left = 50, width = 100, height = 100, el = None \<rparr> (point 60 60)"
    by (simp_all add: coincide_def point_def)
  have first: "\<forall>b r'. map_of (draggablePools ?s) b = Some r' \<and> coincide r' (point 60 60) \<and>
                 b \<noteq> ''trayA'' \<longrightarrow> first_pos ''trayA'' named_trays < first_pos b named_trays"
    using fp by (auto simp add: named_pools split: if_splits)
  have only: "\<forall>b r'. map_of (draggablePools ?s) b = Some r' \<and> coincide r' (point 10 10)
                \<longrightarrow> b = ''trayA''"
    by (auto simp add: named_pools coincide_def point_def split: if_splits)
  have none: "\<forall>b r'. map_of (draggablePools ?s) b = Some r' \<longrightarrow> \<not> coincide r' (point 500 500)"
    by (auto simp add: named_pools coincide_def point_def split: if_splits)
  from lookup [of "''trayA''" ?rA "point 60 60"] plain A c1(1) first
  have r1: "checkPoolsCoincide (point 60 60) ?s = ''trayA''" by blast
  from lookup [of "''trayA''" ?rA "point 10 10"] A c1(2) only
  have r2: "checkPoolsCoincide (point 10 10) ?s = ''trayA''" by blast
  from lookup [of "''trayA''" ?rA "point 500 500"] none
  have r3: "checkPoolsCoincide (point 500 500) ?s = ''''" by blast
  from fp c1(1) c2 r1 r2 r3 show ?thesis by (simp add: idx1)
qed

section \<open>The rate limit of the reorder check\<close>

text \<open>
  Claim C3, as stated: at most one reorder decision executes within any window of 200
  milliseconds, and a submission made inside the window is dropped, never replayed later.
  It fails because the wrapper is given \<open>leading: true\<close> only, and the trailing edge of
  lodash's \<open>debounce\<close> is on unless it is switched off.  The first child of the sortable
  list is grabbed; the pointer is nudged at time 0, pulled below the second child at time
  50 and moved again at time 260.  The nudge is executed at once and reorders nothing.
  The pull is postponed, and replayed at time 250, when it swaps the two children; and
  the move at 260 is at a leading edge again, 10 milliseconds after that execution.  The
  same drag in events: the first \<open>mousemove\<close> runs the reorder function, the second does
  not, and the timer then runs it with the arguments of the second.
\<close>

theorem C3_counterexample:
  "checkChildrenSort_invocations bursts =
     [(0, LeadingEdge, submitted nudge grabbed_first),
      (250, TrailingEdge, submitted pull grabbed_first),
      (260, LeadingEdge, submitted pull grabbed_first)] \<and>
   \<not> spec_one_per_window (checkChildrenSort_invocations bursts) \<and>
   \<not> spec_no_replay bursts (checkChildrenSort_invocations bursts) \<and>
   map order (children grabbed_first) = [Some 0, Some 1, Some 2] \<and>
   checkChildrenSort (still 0) (submitted nudge grabbed_first) grabbed_first = Inr grabbed_first \<and>
   checkChildrenSort_timed still burst grabbed_first = Inr (timed_after still burst grabbed_first) \<and>
   map order (children (timed_after still burst grabbed_first)) = [Some 1, Some 0, Some 2] \<and>
   map order (children (after [grab_first, MaskEvent list_layout True nudge,
                                MaskEvent list_layout False pull,
                                Trailing list_layout (submitted pull grabbed_first)] sort_list)) =
     [Some 1, Some 0, Some 2]"
proof -
  have a: "\<not> spec_one_per_window (checkChildrenSort_invocations bursts)"
    by (simp add: bursts_invocations)
  have b: "\<not> spec_no_replay bursts (checkChildrenSort_invocations bursts)"
    unfolding bursts_invocations
    by (simp add: spec_no_replay_def bursts_def burst_def submitted_grabbed point_def)
  have c: "checkChildrenSort (still 0) (point 0 5) grabbed_first = Inr grabbed_first"
    by (simp add: still_def point_def grabbed_first_def sort_scenario_defs scenario_defs
        model_defs Let_def)
  have r: "reorder_runs still [(0, LeadingEdge, point 0 5), (250, TrailingEdge, point 0 40)]
             grabbed_first = checkChildrenSort list_layout (point 0 40) grabbed_first"
    using c by (simp add: still_def split: sum.splits)
  have d: "\<exists>s'. checkChildrenSort list_layout (point 0 40) grabbed_first = Inr s' \<and>
             map order (children s') = [Some 1, Some 0, Some 2]"
    by (simp add: point_def grabbed_first_def sort_scenario_defs scenario_defs
        model_defs Let_def)
  from d r have e: "checkChildrenSort_timed still burst grabbed_first =
      Inr (timed_after still burst grabbed_first)"
    "map order (children (timed_after still burst grabbed_first)) = [Some 1, Some 0, Some 2]"
    by (auto simp add: timed_after_def checkChildrenSort_timed_def bursts_invocations)
  have g: "map order (children (after [grab_first, MaskEvent list_layout True nudge,
                                MaskEvent list_layout False pull,
                                Trailing list_layout (point 0 40)] sort_list)) =
     [Some 1, Some 0, Some 2]"
    by (simp add: nudge_def pull_def point_def sort_scenario_defs scenario_defs
        model_defs Let_def)
  from a b c e g show ?thesis
    by (simp add: bursts_invocations submitted_grabbed grabbed_first_orders)
qed

text \<open>
  Claim C3, amended: for every sequence of submissions to the reorder check, each with
  its time, made to the wrapper at rest: a submission is executed at once (leading edge)
  exactly when it is the first one or comes at least 200 milliseconds after the
  submission before it; any other submission is postponed, and it is executed 200
  milliseconds after it was made, with its own arguments (trailing edge), exactly when no
  further submission follows within these 200 milliseconds; otherwise it is dropped.  For
  submissions in the order of time, the executions are in the order of time, after an
  execution at the leading edge nothing is executed for 200 milliseconds, and an
  execution at the trailing edge is followed by one at a leading edge, so that any three
  executions span at least 200 milliseconds: a window of 200 milliseconds holds at most
  two.  On a state whose table refers to the children no execution throws.
\<close>

theorem C3_debounce:
  "checkChildrenSort_invocations cs = spec_invocations None cs \<and>
   (sorted (map fst cs) \<longrightarrow>
      (\<forall>i. Suc i < length (checkChildrenSort_invocations cs) \<longrightarrow>
         fst (checkChildrenSort_invocations cs ! i) \<le> fst (checkChildrenSort_invocations cs ! Suc i) \<and>
         (fst (snd (checkChildrenSort_invocations cs ! i)) = LeadingEdge \<longrightarrow>
            fst (checkChildrenSort_invocations cs ! i) + 200
              \<le> fst (checkChildrenSort_invocations cs ! Suc i)) \<and>
         (fst (snd (checkChildrenSort_invocations cs ! i)) = TrailingEdge \<longrightarrow>
            fst (snd (checkChildrenSort_invocations cs ! Suc i)) = LeadingEdge)) \<and>
      (\<forall>i. Suc (Suc i) < length (checkChildrenSort_invocations cs) \<longrightarrow>
         fst (checkChildrenSort_invocations cs ! i) + 200
           \<le> fst (checkChildrenSort_invocations cs ! Suc (Suc i)))) \<and>
   (table_ok s \<longrightarrow> (\<exists>s'. checkChildrenSort_timed L cs s = Inr s' \<and> table_ok s'))"
proof -
  have e: "checkChildrenSort_invocations cs = spec_invocations None cs"
    by (rule invocations_spec)
  have sp: "spaced (checkChildrenSort_invocations cs)" if "sorted (map fst cs)"
    unfolding e using that by (rule spec_invocations_spaced)
  have t: "table_ok s \<longrightarrow> (\<exists>s'. checkChildrenSort_timed L cs s = Inr s' \<and> table_ok s')"
    unfolding checkChildrenSort_timed_def using reorder_runs_total by blast
  from e sp t spaced_nth spaced_three show ?thesis by blast
qed

text \<open>Five moves at the times 0, 50, 120, 400 and 650: the first is executed at once, the
  second is dropped, the third is replayed at 320, the last two are executed at once.\<close>

theorem C3_debounce_witness:
  "sorted (map fst strokes) \<and> table_ok grabbed_first \<and>
   checkChildrenSort_invocations strokes =
     [(0, LeadingEdge, submitted nudge grabbed_first),
      (320, TrailingEdge, submitted pull grabbed_first),
      (400, LeadingEdge, submitted pull grabbed_first),
      (650, LeadingEdge, submitted nudge grabbed_first)] \<and>
   (\<exists>s'. checkChildrenSort_timed still strokes grabbed_first = Inr s' \<and> table_ok s')"
proof -
  note thm3 = C3_debounce [of strokes grabbed_first still]
  have s: "sorted (map fst strokes)" by (simp add: strokes_def)
  from thm3 have "checkChildrenSort_invocations strokes = spec_invocations None strokes"
    by blast
  then have i: "checkChildrenSort_invocations strokes =
     [(0, LeadingEdge, submitted nudge grabbed_first),
      (320, TrailingEdge, submitted pull grabbed_first),
      (400, LeadingEdge, submitted pull grabbed_first),
      (650, LeadingEdge, submitted nudge grabbed_first)]"
    by (simp add: strokes_def)
  from thm3 grabbed_first_table
  have "\<exists>s'. checkChildrenSort_timed still strokes grabbed_first = Inr s' \<and> table_ok s'"
    by blast
  with s i grabbed_first_table show ?thesis by blast
qed

section \<open>The reorder step\<close>

text \<open>
  Claim C4, as stated: whenever the entry before the dragged index exists with a
  recorded top of at least the drag top minus 10, or else the entry after it exists with
  a recorded top of at most the drag top plus 10, that index is the target, the two
  elements are swapped and the tracked drag index becomes the target.  It fails when
  the table has no entry at the dragged index itself.  The container itself is grabbed,
  so that the drag index is -1; the entry at index 0 exists and its top 0 is at most
  0 + 10, so the target is 0; but the check leaves the state as it is, and the drag
  index stays -1.
\<close>

theorem C4_counterexample:
  "childrenInfos grabbed_container (Some (dragIndex grabbed_container - 1)) = None \<and>
   map_option top' (childrenInfos grabbed_container (Some (dragIndex grabbed_container + 1))) = Some 0 \<and>
   (0 :: int) \<le> top' (point 0 0) + 10 \<and>
   spec_target (point 0 0) grabbed_container = Some 0 \<and>
   dragIndex grabbed_container = - 1 \<and>
   checkChildrenSort list_layout (point 0 0) grabbed_container = Inr grabbed_container"
  by (simp add: grabbed_container_def sort_scenario_defs scenario_defs model_defs spec_target_def
      point_def Let_def)

text \<open>
  Claim C4, amended: in a sortable container, for every executed reorder check with
  dragged index \<open>idx\<close> and drag top \<open>t\<close>, the target is \<open>idx-1\<close> if the table entry at
  \<open>idx-1\<close> exists and its recorded top is at least \<open>t - 10\<close>; else \<open>idx+1\<close> if the entry
  at \<open>idx+1\<close> exists and its recorded top is at most \<open>t + 10\<close>; else there is none.
  Without a target, or when the table has no entry at \<open>idx\<close> itself, nothing changes.
  With a target and an entry at \<open>idx\<close>, no exception is thrown, the order values of the
  two elements are swapped (no other child changes), the tracked drag index becomes the
  target, and in the table, rebuilt from the layout, the entry at the target is the
  dragged element and the entry at \<open>idx\<close> is its former neighbour.
\<close>

theorem C4_reorder_step:
  assumes "sortable n s"
  shows "(spec_target i s = None \<or> childrenInfos s (Some (dragIndex s)) = None \<longrightarrow>
            checkChildrenSort lay i s = Inr s) \<and>
         (\<forall>t. spec_target i s = Some t \<and> childrenInfos s (Some (dragIndex s)) \<noteq> None \<longrightarrow>
            (\<exists>a b s'. map_option el (childrenInfos s (Some (dragIndex s))) = Some (Some a) \<and>
               map_option el (childrenInfos s (Some t)) = Some (Some b) \<and>
               checkChildrenSort lay i s = Inr s' \<and> dragIndex s' = t \<and>
               order (children s' ! a) = Some t \<and>
               order (children s' ! b) = Some (dragIndex s) \<and>
               (\<forall>c. c \<noteq> a \<and> c \<noteq> b \<longrightarrow> children s' ! c = children s ! c) \<and>
               childrenInfos s' (Some t) = Some (childInfo lay a) \<and>
               childrenInfos s' (Some (dragIndex s)) = Some (childInfo lay b)))"
proof (intro conjI allI impI)
  assume "spec_target i s = None \<or> childrenInfos s (Some (dragIndex s)) = None"
  then have "sortIndex i s < 0 \<or> childrenInfos s (Some (dragIndex s)) = None"
    by (auto simp add: sortIndex_spec)
  then show "checkChildrenSort lay i s = Inr s" by (rule checkChildrenSort_noop)
next
  fix t
  assume h: "spec_target i s = Some t \<and> childrenInfos s (Some (dragIndex s)) \<noteq> None"
  let ?d = "dragIndex s"
  from assms have tok: "table_ok s" by (simp add: sortable_def)
  from h have si: "sortIndex i s = t" by (simp add: sortIndex_spec)
  from h obtain pd where pd: "childrenInfos s (Some ?d) = Some pd" by auto
  from h spec_target_entry [of i s t] obtain pt where
    pt: "childrenInfos s (Some t) = Some pt" and ne: "t \<noteq> ?d" by auto
  from sortable_keys [OF assms] pt have "t \<in> {0 ..< int n}" by auto
  then have ge: "0 \<le> sortIndex i s" by (simp add: si)
  from table_ok_entry [OF tok pd] obtain a where
    a: "el pd = Some a" "a < length (children s)" "order (children s ! a) = Some ?d" by blast
  from table_ok_entry [OF tok pt] obtain b where
    b: "el pt = Some b" "b < length (children s)" "order (children s ! b) = Some t" by blast
  from a(3) b(3) ne have ab: "a \<noteq> b" by auto
  let ?s' = "swapOrders lay a b t s"
  have r: "checkChildrenSort lay i s = Inr ?s'"
    using checkChildrenSort_swap [OF ge pd a(1) _ b(1) ab a(2)] pt si by simp
  have cs: "children ?s' = (children s) [a := (children s ! a) \<lparr> order := Some t \<rparr>,
                                          b := (children s ! b) \<lparr> order := Some ?d \<rparr>]"
    by (simp add: swapOrders_def Let_def)
  have oa: "order (children ?s' ! a) = Some t" and ob: "order (children ?s' ! b) = Some ?d"
    using a(2) b(2) ab by (simp_all add: cs)
  have rest: "\<forall>c. c \<noteq> a \<and> c \<noteq> b \<longrightarrow> children ?s' ! c = children s ! c"
    by (simp add: cs)
  have so: "sortable n ?s'"
    by (rule swapOrders_sortable [OF assms a(2) b(2) ab a(3) b(3)])
  then have di: "distinct (map order (children ?s'))" by (simp add: sortable_def)
  have len: "a < length (children ?s')" "b < length (children ?s')"
    using a(2) b(2) by (simp_all add: cs)
  have tb: "childrenInfos ?s' = buildChildrenInfos lay (children ?s')"
    by (simp add: swapOrders_def Let_def)
  have ta: "childrenInfos ?s' (Some t) = Some (childInfo lay a)"
    using build_distinct [OF di len(1), of lay] oa tb by simp
  have tbb: "childrenInfos ?s' (Some ?d) = Some (childInfo lay b)"
    using build_distinct [OF di len(2), of lay] ob tb by simp
  have "dragIndex ?s' = t" by (simp add: swapOrders_fields)
  with pd pt a(1) b(1) r oa ob rest ta tbb
  show "\<exists>a b s'. map_option el (childrenInfos s (Some ?d)) = Some (Some a) \<and>
               map_option el (childrenInfos s (Some t)) = Some (Some b) \<and>
               checkChildrenSort lay i s = Inr s' \<and> dragIndex s' = t \<and>
               order (children s' ! a) = Some t \<and>
               order (children s' ! b) = Some ?d \<and>
               (\<forall>c. c \<noteq> a \<and> c \<noteq> b \<longrightarrow> children s' ! c = children s ! c) \<and>
               childrenInfos s' (Some t) = Some (childInfo lay a) \<and>
               childrenInfos s' (Some ?d) = Some (childInfo lay b)"
    by (intro exI [of _ a] exI [of _ b] exI [of _ ?s']) simp
qed

theorem C4_reorder_step_witness:
  "sortable 3 grabbed_first \<and> dragIndex grabbed_first = 0 \<and>
   spec_target (point 0 40) grabbed_first = Some 1 \<and>
   childrenInfos grabbed_first (Some (dragIndex grabbed_first)) \<noteq> None \<and>
   (\<exists>s'. checkChildrenSort list_layout (point 0 40) grabbed_first = Inr s' \<and> dragIndex s' = 1 \<and>
      order (children s' ! 0) = Some 1 \<and> order (children s' ! 1) = Some 0 \<and>
      children s' ! 2 = children grabbed_first ! 2 \<and>
      childrenInfos s' (Some 1) = Some (childInfo list_layout 0) \<and>
      childrenInfos s' (Some 0) = Some (childInfo list_layout 1)) \<and>
   spec_target (point 0 39) grabbed_first = None \<and>
   checkChildrenSort list_layout (point 0 39) grabbed_first = Inr grabbed_first"
proof -
  let ?opts = "no_options \<lparr> isChildren := True, isSort := True \<rparr>"
  have h1: "isChildren ?opts" and h2: "isSort ?opts" and h3: "\<not> mask_display three_children"
    and n: "length (children three_children) = 3"
    by (simp_all add: no_options_def three_children_def blank_page_def)
  have so: "sortable 3 grabbed_first"
    using sortable_reachable [OF h1 h2 h3, of "[grab_first]" list_layout]
    unfolding n grabbed_first_def sort_list_def .
  have f: "dragIndex grabbed_first = 0" "spec_target (point 0 40) grabbed_first = Some 1"
    "childrenInfos grabbed_first (Some 0) = Some (childInfo list_layout 0)"
    "childrenInfos grabbed_first (Some 1) = Some (childInfo list_layout 1)"
    "spec_target (point 0 39) grabbed_first = None"
    by (simp_all add: grabbed_first_def sort_scenario_defs scenario_defs model_defs spec_target_def
        point_def Let_def)
  note step = C4_reorder_step [OF so, of _ list_layout]
  from step [of "point 0 39"] f(5)
  have n: "checkChildrenSort list_layout (point 0 39) grabbed_first = Inr grabbed_first" by blast
  from step [of "point 0 40"] f(1,2,3)
  obtain a b s' where
    "map_option el (childrenInfos grabbed_first (Some (dragIndex grabbed_first))) = Some (Some a)"
    "map_option el (childrenInfos grabbed_first (Some 1)) = Some (Some b)"
    and s': "checkChildrenSort list_layout (point 0 40) grabbed_first = Inr s'" "dragIndex s' = 1"
    "order (children s' ! a) = Some 1"
    "order (children s' ! b) = Some (dragIndex grabbed_first)"
    "\<forall>c. c \<noteq> a \<and> c \<noteq> b \<longrightarrow> children s' ! c = children grabbed_first ! c"
    "childrenInfos s' (Some 1) = Some (childInfo list_layout a)"
    "childrenInfos s' (Some (dragIndex grabbed_first)) = Some (childInfo list_layout b)"
    by (metis option.distinct(1))
  then have "a = 0" "b = 1" using f by (simp_all add: childInfo_def)
  with s' f(1) have "checkChildrenSort list_layout (point 0 40) grabbed_first = Inr s' \<and>
      dragIndex s' = 1 \<and>
      order (children s' ! 0) = Some 1 \<and> order (children s' ! 1) = Some 0 \<and>
      children s' ! 2 = children grabbed_first ! 2 \<and>
      childrenInfos s' (Some 1) = Some (childInfo list_layout 0) \<and>
      childrenInfos s' (Some 0) = Some (childInfo list_layout 1)"
    by simp
  with so f n show ?thesis by auto
qed

section \<open>The keys of the order table\<close>

text \<open>
  Claim C5, as stated: after any number of reorder swaps the keys of the table are
  exactly the integers from 0 below the number of children.  It fails for a container
  that also has a resize handle: the handle is appended to the children of the element
  after the table is first built, so the first rebuild of the table adds an entry for
  it under its empty order value.  After one swap in a container with three items and
  a handle, the table has an entry under the empty key, for child 3, the handle.
\<close>

theorem C5_counterexample:
  "childrenInfos (after [grab_first, pull_down] handle_list) None = Some (childInfo list_layout 3)"
  by (simp add: sort_scenario_defs scenario_defs model_defs Let_def)

text \<open>
  Claim C5, amended: for every sortable container with \<open>n\<close> children at construction and
  every finite sequence of events after it, no handler throws, the integer keys of the
  order table are exactly the integers from 0 below \<open>n\<close>, and the order values of the
  children are these integers, each once, and the empty order value of the resize
  handle if there is one.  Without a resize handle the keys of the table are exactly
  these integers and \<open>n\<close> is the number of children.
\<close>

theorem C5_order_keys:
  assumes "isChildren opts" and "isSort opts" and "\<not> mask_display env"
  shows "\<exists>s. run evs (new_XDraggable opts lay env) = Inr s \<and>
           {k. childrenInfos s (Some k) \<noteq> None} = {0 ..< int (length (children env))} \<and>
           distinct (map order (children s)) \<and>
           set (map order (children s)) =
             Some ` {0 ..< int (length (children env))} \<union>
             (if direction opts = DNone then {} else {None}) \<and>
           (direction opts = DNone \<longrightarrow>
              dom (childrenInfos s) = Some ` {0 ..< int (length (children env))} \<and>
              length (children s) = length (children env))"
proof -
  let ?s0 = "new_XDraggable opts lay env"
  let ?n = "length (children env)"
  from run_inv [OF new_XDraggable_table_ok new_XDraggable_drag_ok [OF assms(3)], of evs opts lay ?n]
    new_XDraggable_sortable [OF assms(1,2), of env lay]
  obtain s where s: "run evs ?s0 = Inr s" "options s = options ?s0"
    "length (children s) = length (children ?s0)" "sortable ?n s"
    by blast
  from s(2) have d: "direction (options s) = direction opts"
    by (simp add: new_XDraggable_fields)
  have l: "direction opts = DNone \<longrightarrow> length (children s) = ?n"
    using s(3) by (simp add: new_XDraggable_fields handle_child_def numbered_length)
  from s(4) d have "distinct (map order (children s))"
    "set (map order (children s)) =
       Some ` {0 ..< int ?n} \<union> (if direction opts = DNone then {} else {None})"
    by (simp_all add: sortable_def handle_orders_def)
  with s(1) sortable_keys [OF s(4)] sortable_dom [OF s(4)] d l show ?thesis by auto
qed

theorem C5_order_keys_witness:
  "isChildren (no_options \<lparr> isChildren := True, isSort := True \<rparr>) \<and>
   isSort (no_options \<lparr> isChildren := True, isSort := True \<rparr>) \<and>
   \<not> mask_display three_children \<and>
   (\<exists>s. run [grab_first, pull_down, release] sort_list = Inr s \<and>
      {k. childrenInfos s (Some k) \<noteq> None} = {0 ..< 3} \<and>
      dom (childrenInfos s) = Some ` {0 ..< 3} \<and> length (children s) = 3)"
proof -
  let ?opts = "no_options \<lparr> isChildren := True, isSort := True \<rparr>"
  have h1: "isChildren ?opts" and h2: "isSort ?opts" and h3: "\<not> mask_display three_children"
    and d: "direction ?opts = DNone" and n: "length (children three_children) = 3"
    by (simp_all add: no_options_def three_children_def blank_page_def)
  from C5_order_keys [OF h1 h2 h3, of "[grab_first, pull_down, release]" list_layout]
  obtain s where "run [grab_first, pull_down, release] (new_XDraggable ?opts list_layout three_children)
                    = Inr s"
    and "{k. childrenInfos s (Some k) \<noteq> None} = {0 ..< int (length (children three_children))}"
    and "direction ?opts = DNone \<longrightarrow>
           dom (childrenInfos s) = Some ` {0 ..< int (length (children three_children))} \<and>
           length (children s) = length (children three_children)"
    by blast
  with d n have "run [grab_first, pull_down, release] sort_list = Inr s \<and>
      {k. childrenInfos s (Some k) \<noteq> None} = {0 ..< 3} \<and>
      dom (childrenInfos s) = Some ` {0 ..< 3} \<and> length (children s) = 3"
    by (simp add: sort_list_def)
  with h1 h2 h3 show ?thesis by blast
qed

section \<open>The release of a drag\<close>




section \<open>The resize arithmetic\<close>




section \<open>Persisting the size\<close>

text \<open>
  Claim C8: in a resize gesture of a container with \<open>resizeId\<close> \<open>r\<close> (a \<open>mousedown\<close> on
  the handle, any number of \<open>mousemove\<close>s, a \<open>mouseup\<close>) no handler throws; up to the
  \<open>mouseup\<close> nothing is written to the storage, and the \<open>mouseup\<close> makes exactly one
  write: under the key \<open>drag-r-size\<close>, the decimal string of the final size, which is the
  size the specification's formula gives for the pointer of the \<open>mouseup\<close> and the bounds
  the element had at the \<open>mousedown\<close>.
\<close>

theorem C8_persist_on_release:
  assumes "\<not> mask_display s" and "direction (options s) \<noteq> DNone" and "type' e0 = Mousedown"
    and "\<forall>m\<in>set moves. is_mousemove m" and "type' e = Mouseup"
    and "resizeId (options s) = Some r"
  shows "\<exists>s1 s'. run (HandleMousedown lay e0 # moves) s = Inr s1 \<and>
           localStorage s1 = localStorage s \<and>
           run (HandleMousedown lay e0 # moves @ [MaskEvent lay' invoke e]) s = Inr s' \<and>
           (\<exists>v. spec_decimal v (spec_resize_size (direction (options s)) (el_box lay) e) \<and>
              localStorage s' = localStorage s @ [(''drag-'' @ r @ ''-size'', v)])"
proof -
  let ?size = "spec_resize_size (direction (options s)) (el_box lay) e"
  from resize_gesture [OF assms(1-4)]
  obtain s1 where s1: "run (HandleMousedown lay e0 # moves) s = Inr s1" "isResize s1"
    "mask_display s1" "options s1 = options s" "localStorage s1 = localStorage s"
    "info s1 = info (handleResize lay e0 (s \<lparr> isResize := True \<rparr>))"
    by blast
  let ?s' = "handleResize lay' e s1"
  have ne: "type' e \<noteq> Mousedown" using assms(5) by simp
  have "run ((HandleMousedown lay e0 # moves) @ [MaskEvent lay' invoke e]) s =
          run [MaskEvent lay' invoke e] s1"
    using s1(1) by (rule run_append)
  then have r: "run (HandleMousedown lay e0 # moves @ [MaskEvent lay' invoke e]) s = Inr ?s'"
    using resize_last [OF s1(2,3) ne] by simp
  have sz: "computedSize (direction (options s)) (info s1) e = ?size"
    using s1(6) start_size [OF assms(3)] by simp
  have "localStorage ?s' = localStorage s @ [(''drag-'' @ r @ ''-size'', toString ?size)]"
    using handleResize_mouseup_storage [OF assms(5), of lay' s1] s1(4,5) assms(6) sz
    by (simp add: storageKey_def)
  moreover have "spec_decimal (toString ?size) ?size" by (rule toString_decimal)
  ultimately have "\<exists>v. spec_decimal v ?size \<and>
      localStorage ?s' = localStorage s @ [(''drag-'' @ r @ ''-size'', v)]"
    by blast
  with r s1(1,5) show ?thesis by blast
qed

text \<open>The gesture of the specification: size 350 and \<open>resizeId\<close> \<open>panelA\<close> store
  \<open>350\<close> under \<open>drag-panelA-size\<close>.\<close>

theorem C8_persist_on_release_witness:
  "\<not> mask_display panelA \<and> direction (options panelA) \<noteq> DNone \<and>
   resizeId (options panelA) = Some ''panelA'' \<and>
   is_mousemove (MaskEvent panel_layout True (mouse Mousemove 380 30 380 30 TargetEl)) \<and>
   (\<exists>s'. run panelA_gesture panelA = Inr s' \<and>
      localStorage s' = [(''drag-panelA-size'', ''350'')])"
proof -
  let ?down = "mouse Mousedown 348 30 2 10 TargetEl"
  let ?move = "MaskEvent panel_layout True (mouse Mousemove 380 30 380 30 TargetEl)"
  let ?up = "mouse Mouseup 400 30 400 30 TargetEl"
  have h1: "\<not> mask_display panelA" and h2: "direction (options panelA) \<noteq> DNone"
    and h3: "type' ?down = Mousedown" and h4: "\<forall>m\<in>set [?move]. is_mousemove m"
    and h5: "type' ?up = Mouseup" and h6: "resizeId (options panelA) = Some ''panelA''"
    by (simp_all add: panelA_idle mouse_def)
  have sz: "spec_resize_size (direction (options panelA)) (el_box panel_layout) ?up = 350"
    by (simp add: panelA_idle spec_resize_size_def panel_layout_def box_def mouse_def)
  from C8_persist_on_release [OF h1 h2 h3 h4 h5 h6, of panel_layout panel_layout True]
  obtain s' v where s': "run panelA_gesture panelA = Inr s'"
    and v: "spec_decimal v (spec_resize_size (direction (options panelA)) (el_box panel_layout) ?up)"
    and st: "localStorage s' = localStorage panelA @ [(''drag-'' @ ''panelA'' @ ''-size'', v)]"
    by (auto simp add: panelA_gesture_def)
  from v sz have "v = toString 350" using spec_decimal_toString [of v 350] by simp
  with st have "localStorage s' = [(''drag-panelA-size'', ''350'')]"
    by (simp add: panelA_idle toString_350)
  with s' h1 h2 h4 h6 show ?thesis by simp
qed

section \<open>The sentinel index\<close>

text \<open>
  Claim C9: in every state an instance reaches after its construction (no handler
  throws on the way), a reorder check executed while the drag index is -1 returns the
  state as it is: no order value is written, the table and the drag index are
  unchanged, and no exception is thrown for a missing entry.
\<close>

theorem C9_sentinel:
  assumes "\<not> mask_display env"
  shows "\<exists>s. run evs (new_XDraggable opts lay0 env) = Inr s \<and>
           (dragIndex s = - 1 \<longrightarrow> checkChildrenSort lay i s = Inr s)"
proof -
  let ?s0 = "new_XDraggable opts lay0 env"
  let ?n = "length (children env)"
  from run_inv [OF new_XDraggable_table_ok new_XDraggable_drag_ok [OF assms], of evs opts lay0 ?n]
  obtain s where s: "run evs ?s0 = Inr s"
    "childrenInfos ?s0 = Map.empty \<longrightarrow> childrenInfos s = Map.empty"
    "sortable ?n ?s0 \<longrightarrow> sortable ?n s"
    by blast
  have "childrenInfos s (Some (- 1)) = None"
  proof (cases "isChildren opts \<and> isSort opts")
    case True
    then have "sortable ?n s" using s(3) new_XDraggable_sortable by blast
    from sortable_keys [OF this] have "- 1 \<in> {k. childrenInfos s (Some k) \<noteq> None} \<longleftrightarrow>
        - 1 \<in> {0 ..< int ?n}" by simp
    then show ?thesis by simp
  next
    case False
    then show ?thesis using s(2) new_XDraggable_unsorted by simp
  qed
  then have "dragIndex s = - 1 \<longrightarrow> checkChildrenSort lay i s = Inr s"
    by (simp add: checkChildrenSort_noop)
  with s(1) show ?thesis by blast
qed

theorem C9_sentinel_witness:
  "\<not> mask_display three_children \<and>
   (\<exists>s. run [grab_container] sort_list = Inr s \<and> dragIndex s = - 1 \<and>
      sortIndex (point 0 0) s = 0 \<and>
      checkChildrenSort list_layout (point 0 0) s = Inr s)"
proof -
  have h: "\<not> mask_display three_children"
    by (simp add: three_children_def blank_page_def)
  from C9_sentinel [OF h, of "[grab_container]" "no_options \<lparr> isChildren := True, isSort := True \<rparr>"
      list_layout list_layout "point 0 0"]
  obtain s where s: "run [grab_container] sort_list = Inr s"
    "dragIndex s = - 1 \<longrightarrow> checkChildrenSort list_layout (point 0 0) s = Inr s"
    by (auto simp add: sort_list_def)
  from s(1) have "dragIndex s = - 1 \<and> sortIndex (point 0 0) s = 0"
    by (auto simp add: sort_scenario_defs scenario_defs model_defs sortIndex_def point_def Let_def)
  with s h show ?thesis by blast
qed

section \<open>Containers without sorting\<close>

text \<open>
  Claim C10: a container constructed with \<open>isSort = false\<close> starts with an empty table,
  and after every finite sequence of events (pointer events, and runs of the reorder
  function by lodash's timer) no handler has thrown, the children and their order
  values are as they were after construction, and the table is still empty.
\<close>

theorem C10_no_sort_no_change:
  assumes "\<not> isSort opts" and "\<not> mask_display env"
  shows "childrenInfos (new_XDraggable opts lay env) = Map.empty \<and>
         (\<exists>s. run evs (new_XDraggable opts lay env) = Inr s \<and>
            children s = children (new_XDraggable opts lay env) \<and>
            childrenInfos s = Map.empty)"
proof -
  let ?s0 = "new_XDraggable opts lay env"
  have e: "childrenInfos ?s0 = Map.empty"
    using assms(1) by (simp add: new_XDraggable_unsorted)
  from run_inv [OF new_XDraggable_table_ok new_XDraggable_drag_ok [OF assms(2)], of evs opts lay 0] e
  show ?thesis by blast
qed

theorem C10_no_sort_no_change_witness:
  "\<not> isSort (no_options \<lparr> isChildren := True \<rparr>) \<and> \<not> mask_display three_children \<and>
   (\<exists>s. run [grab_first, pull_down, release] plain_list = Inr s \<and>
      map order (children s) = [Some 0, Some 1, Some 2] \<and> childrenInfos s = Map.empty)"
proof -
  let ?opts = "no_options \<lparr> isChildren := True \<rparr>"
  have h1: "\<not> isSort ?opts" and h2: "\<not> mask_display three_children"
    by (simp_all add: no_options_def three_children_def blank_page_def)
  have c: "map order (children plain_list) = [Some 0, Some 1, Some 2]"
    by (simp add: sort_scenario_defs scenario_defs model_defs Let_def)
  from C10_no_sort_no_change [OF h1 h2, of list_layout "[grab_first, pull_down, release]"] c h1 h2
  show ?thesis by (auto simp add: plain_list_def)
qed

end
